theory Spec2Isabelle
  imports Main
begin

section \<open>The copy-on-write wrapper \<open>stlab::copy_on_write<T>\<close>\<close>

text \<open>
  A shallow embedding of \<^verbatim>\<open>include/stlab/copy_on_write.hpp\<close>.

  \<^item> A \<^verbatim>\<open>model\<close> (the heap cell) is a record of its \<^verbatim>\<open>_count\<close> and \<^verbatim>\<open>_value\<close>.
  \<^item> The memory is an explicit store \<open>cells\<close> from addresses to models. The function-local
    \<^verbatim>\<open>static model default_s\<close> lives at the fixed address \<open>default_s\<close>; \<^verbatim>\<open>new\<close> hands out
    the addresses \<open>next_addr\<close>, \<open>next_addr + 1\<close>, ... so an address names one cell for ever
    (a dangling address is never mistaken for a later allocation). \<open>deleted\<close> logs the
    calls of \<^verbatim>\<open>delete\<close>.
  \<^item> Every \<^verbatim>\<open>copy_on_write\<close> object is an entry of \<open>handles\<close>: the object's identity
    mapped to its \<^verbatim>\<open>_self\<close> pointer (\<open>None\<close> is \<^verbatim>\<open>nullptr\<close>). Objects of the caller are \<open>Named n\<close>;
    the temporaries the member functions create are \<open>Temp 0\<close> (the prvalue
    \<^verbatim>\<open>copy_on_write(...)\<close> in an assignment) and \<open>Temp 1\<close> (the local \<^verbatim>\<open>tmp\<close> of move assignment).
  \<^item> The element type \<^verbatim>\<open>T\<close> is a parameter: a record of what its operations do, each of
    which may throw.
  \<^item> A call returns, throws (the state it leaves is kept: the caller may catch and go
    on), or ends the process: a failed \<^verbatim>\<open>assert\<close> (the checked build is modelled, so the
    expression of every \<^verbatim>\<open>assert\<close> is evaluated), \<^verbatim>\<open>std::terminate\<close> for an exception that
    leaves a \<^verbatim>\<open>noexcept\<close> function, or undefined behaviour (use of an object or cell that
    is not alive).
  \<^item> \<^verbatim>\<open>_count\<close> is a \<^verbatim>\<open>std::size_t\<close>. Every unit of it is held by a live \<^verbatim>\<open>copy_on_write\<close>
    object, which occupies \<^verbatim>\<open>sizeof(model*)\<close> bytes of the same address space, so the
    counter cannot wrap; it is a \<open>nat\<close>. The destructor asserts \<^verbatim>\<open>_count > 0\<close> before it
    subtracts.
  \<^item> \<^verbatim>\<open>operator new\<close> finds memory.
\<close>

subsection \<open>Data\<close>

type_synonym addr = nat

type_synonym exn = string

datatype fatal = Assertion_failed | Terminate_called | Undefined_behaviour | Ill_formed

datatype hid = Named nat | Temp nat

record 'a model =
  count :: nat
  val :: 'a

record 'a state =
  cells :: "addr \<rightharpoonup> 'a model"
  next_addr :: addr
  deleted :: "addr list"
  handles :: "hid \<rightharpoonup> addr option"

datatype ('r, 's) outcome = Return 'r 's | Throw exn 's | Fatal fatal

text \<open>
  The element type: its default constructor (\<open>None\<close> when \<^verbatim>\<open>T\<close> is not default
  constructible), the construction of a \<^verbatim>\<open>T\<close> from a forwarded \<^verbatim>\<open>T\<close> (the copy
  constructor), the construction of a \<^verbatim>\<open>T\<close> from a temporary \<^verbatim>\<open>T\<close> (the move
  constructor, or the copy constructor where \<^verbatim>\<open>T\<close> has no other), the assignment
  \<^verbatim>\<open>lhs = rhs\<close> (the value it leaves in \<^verbatim>\<open>lhs\<close>, and the exception if it threw), \<^verbatim>\<open>==\<close>
  and \<^verbatim>\<open><\<close>.
\<close>

record 'a elem_type =
  elem_default :: "(exn + 'a) option"
  elem_copy :: "'a \<Rightarrow> exn + 'a"
  elem_move :: "'a \<Rightarrow> exn + 'a"
  elem_assign :: "'a \<Rightarrow> 'a \<Rightarrow> 'a \<times> exn option"
  elem_eq :: "'a \<Rightarrow> 'a \<Rightarrow> exn + bool"
  elem_lt :: "'a \<Rightarrow> 'a \<Rightarrow> exn + bool"

definition default_s :: addr where
  "default_s = 0"

definition init_state :: "'a state" where
  "init_state = \<lparr>cells = Map.empty, next_addr = 1, deleted = [], handles = Map.empty\<rparr>"

subsection \<open>Control flow\<close>

definition ret :: "'r \<Rightarrow> 's \<Rightarrow> ('r, 's) outcome" where
  "ret r s = Return r s"

definition throw :: "exn \<Rightarrow> 's \<Rightarrow> ('r, 's) outcome" where
  "throw e s = Throw e s"

definition abort :: "fatal \<Rightarrow> 's \<Rightarrow> ('r, 's) outcome" where
  "abort f s = Fatal f"

definition and_then ::
  "('s \<Rightarrow> ('q, 's) outcome) \<Rightarrow> ('q \<Rightarrow> 's \<Rightarrow> ('r, 's) outcome) \<Rightarrow> 's \<Rightarrow> ('r, 's) outcome" where
  "and_then m f s =
     (case m s of Return q s' \<Rightarrow> f q s' | Throw e s' \<Rightarrow> Throw e s' | Fatal x \<Rightarrow> Fatal x)"

definition assert :: "bool \<Rightarrow> 's \<Rightarrow> (unit, 's) outcome" where
  "assert b = (if b then ret () else abort Assertion_failed)"

text \<open>An exception that leaves a \<^verbatim>\<open>noexcept\<close> function calls \<^verbatim>\<open>std::terminate\<close>.\<close>

definition noexcept :: "('s \<Rightarrow> ('r, 's) outcome) \<Rightarrow> 's \<Rightarrow> ('r, 's) outcome" where
  "noexcept m s = (case m s of Throw e s' \<Rightarrow> Fatal Terminate_called | r \<Rightarrow> r)"

text \<open>The outcome of an operation of the element type, as an outcome of the caller.\<close>

definition lift :: "exn + 'r \<Rightarrow> 's \<Rightarrow> ('r, 's) outcome" where
  "lift c = (case c of Inl e \<Rightarrow> throw e | Inr r \<Rightarrow> ret r)"

subsection \<open>The memory of models\<close>

definition load_count :: "addr \<Rightarrow> 'a state \<Rightarrow> (nat, 'a state) outcome" where
  "load_count p s =
     (case cells s p of None \<Rightarrow> Fatal Undefined_behaviour | Some m \<Rightarrow> Return (count m) s)"

definition load_value :: "addr \<Rightarrow> 'a state \<Rightarrow> ('a, 'a state) outcome" where
  "load_value p s =
     (case cells s p of None \<Rightarrow> Fatal Undefined_behaviour | Some m \<Rightarrow> Return (val m) s)"

definition store_value :: "addr \<Rightarrow> 'a \<Rightarrow> 'a state \<Rightarrow> (unit, 'a state) outcome" where
  "store_value p v s =
     (case cells s p of
        None \<Rightarrow> Fatal Undefined_behaviour
      | Some m \<Rightarrow> Return () (s\<lparr>cells := (cells s)(p \<mapsto> m\<lparr>val := v\<rparr>)\<rparr>))"

text \<open>\<^verbatim>\<open>fetch_add(1)\<close> and \<^verbatim>\<open>fetch_sub(1)\<close> return the count before the update.\<close>

definition fetch_add :: "addr \<Rightarrow> 'a state \<Rightarrow> (nat, 'a state) outcome" where
  "fetch_add p s =
     (case cells s p of
        None \<Rightarrow> Fatal Undefined_behaviour
      | Some m \<Rightarrow> Return (count m) (s\<lparr>cells := (cells s)(p \<mapsto> m\<lparr>count := count m + 1\<rparr>)\<rparr>))"

definition fetch_sub :: "addr \<Rightarrow> 'a state \<Rightarrow> (nat, 'a state) outcome" where
  "fetch_sub p s =
     (case cells s p of
        None \<Rightarrow> Fatal Undefined_behaviour
      | Some m \<Rightarrow> Return (count m) (s\<lparr>cells := (cells s)(p \<mapsto> m\<lparr>count := count m - 1\<rparr>)\<rparr>))"

text \<open>\<^verbatim>\<open>new model(v)\<close>: \<^verbatim>\<open>_count{1}\<close> and the value.\<close>

definition new_model :: "'a \<Rightarrow> 'a state \<Rightarrow> (addr, 'a state) outcome" where
  "new_model v s =
     Return (next_addr s)
       (s\<lparr>cells := (cells s)(next_addr s \<mapsto> \<lparr>count = 1, val = v\<rparr>),
          next_addr := Suc (next_addr s)\<rparr>)"

definition delete_model :: "addr \<Rightarrow> 'a state \<Rightarrow> (unit, 'a state) outcome" where
  "delete_model p s =
     (case cells s p of
        None \<Rightarrow> Fatal Undefined_behaviour
      | Some m \<Rightarrow> Return () (s\<lparr>cells := (cells s)(p := None), deleted := p # deleted s\<rparr>))"

text \<open>
  \<^verbatim>\<open>default_model()\<close>: the static is initialised by the first call that reaches it
  (\<^verbatim>\<open>_count{1}\<close>, a default-constructed value); when the constructor of \<^verbatim>\<open>T\<close> throws, the
  static stays uninitialised. Where \<^verbatim>\<open>T\<close> has no default constructor the call does not
  compile (\<open>Ill_formed\<close>).
\<close>

definition default_model :: "'a elem_type \<Rightarrow> 'a state \<Rightarrow> (addr, 'a state) outcome" where
  "default_model T s =
     (case cells s default_s of
        Some m \<Rightarrow> Return default_s s
      | None \<Rightarrow>
          (case elem_default T of
             None \<Rightarrow> Fatal Ill_formed
           | Some (Inl e) \<Rightarrow> Throw e s
           | Some (Inr d) \<Rightarrow>
               Return default_s (s\<lparr>cells := (cells s)(default_s \<mapsto> \<lparr>count = 1, val = d\<rparr>)\<rparr>)))"

subsection \<open>The \<^verbatim>\<open>_self\<close> field of an object\<close>

definition get_self :: "hid \<Rightarrow> 'a state \<Rightarrow> (addr option, 'a state) outcome" where
  "get_self h s =
     (case handles s h of None \<Rightarrow> Fatal Undefined_behaviour | Some p \<Rightarrow> Return p s)"

definition set_self :: "hid \<Rightarrow> addr option \<Rightarrow> 'a state \<Rightarrow> (unit, 'a state) outcome" where
  "set_self h p s =
     (case handles s h of
        None \<Rightarrow> Fatal Undefined_behaviour
      | Some q \<Rightarrow> Return () (s\<lparr>handles := (handles s)(h \<mapsto> p)\<rparr>))"

text \<open>A constructor runs on storage that holds no object; the destructor ends the object.\<close>

definition init_self :: "hid \<Rightarrow> addr option \<Rightarrow> 'a state \<Rightarrow> (unit, 'a state) outcome" where
  "init_self h p s =
     (case handles s h of
        Some q \<Rightarrow> Fatal Undefined_behaviour
      | None \<Rightarrow> Return () (s\<lparr>handles := (handles s)(h \<mapsto> p)\<rparr>))"

definition end_lifetime :: "hid \<Rightarrow> 'a state \<Rightarrow> (unit, 'a state) outcome" where
  "end_lifetime h s = Return () (s\<lparr>handles := (handles s)(h := None)\<rparr>)"

subsection \<open>Constructors and destructor\<close>

text \<open>
  \<^verbatim>\<open>copy_on_write() { _self = default_model(); _self->_count.fetch_add(1); }\<close>
\<close>

definition ctor_default :: "'a elem_type \<Rightarrow> hid \<Rightarrow> 'a state \<Rightarrow> (unit, 'a state) outcome" where
  "ctor_default T h =
     and_then (default_model T) (\<lambda>p.
     and_then (init_self h (Some p)) (\<lambda>_.
     and_then (fetch_add p) (\<lambda>_. ret ())))"

text \<open>
  \<^verbatim>\<open>copy_on_write(U&& x) : _self(new model(std::forward<U>(x))) {}\<close>, where \<open>c\<close> is what
  the constructor of \<^verbatim>\<open>T\<close> does on the forwarded argument; when it throws, \<^verbatim>\<open>new\<close> releases
  the memory.
\<close>

definition ctor_value :: "hid \<Rightarrow> exn + 'a \<Rightarrow> 'a state \<Rightarrow> (unit, 'a state) outcome" where
  "ctor_value h c =
     and_then (lift c) (\<lambda>v.
     and_then (new_model v) (\<lambda>p. init_self h (Some p)))"

text \<open>
  \<^verbatim>\<open>copy_on_write(const copy_on_write& x) noexcept : _self(x._self)
  { assert(_self); _self->_count.fetch_add(1); }\<close>
\<close>

definition ctor_copy :: "hid \<Rightarrow> hid \<Rightarrow> 'a state \<Rightarrow> (unit, 'a state) outcome" where
  "ctor_copy h x =
     noexcept
       (and_then (get_self x) (\<lambda>p.
        and_then (init_self h p) (\<lambda>_.
        and_then (assert (p \<noteq> None)) (\<lambda>_.
        and_then (fetch_add (the p)) (\<lambda>_. ret ())))))"

text \<open>
  \<^verbatim>\<open>copy_on_write(copy_on_write&& x) noexcept : _self{std::exchange(x._self, nullptr)}
  { assert(_self); }\<close>
\<close>

definition ctor_move :: "hid \<Rightarrow> hid \<Rightarrow> 'a state \<Rightarrow> (unit, 'a state) outcome" where
  "ctor_move h x =
     noexcept
       (and_then (get_self x) (\<lambda>p.
        and_then (set_self x None) (\<lambda>_.
        and_then (init_self h p) (\<lambda>_. assert (p \<noteq> None)))))"

text \<open>
  \<^verbatim>\<open>~copy_on_write() {
      assert(!_self || (_self->_count > 0));
      if (_self && (_self->_count.fetch_sub(1) == 1)) {
          if constexpr (std::is_default_constructible_v<element_type>)
              assert(_self != default_model());
          delete _self;
      }
  }\<close>
  The second \<^verbatim>\<open>assert\<close> calls \<^verbatim>\<open>default_model()\<close>, which initialises the static when no
  call has done so before.
\<close>

definition dtor :: "'a elem_type \<Rightarrow> hid \<Rightarrow> 'a state \<Rightarrow> (unit, 'a state) outcome" where
  "dtor T h =
     noexcept
       (and_then (get_self h) (\<lambda>p.
        case p of
          None \<Rightarrow> end_lifetime h
        | Some a \<Rightarrow>
            and_then (load_count a) (\<lambda>c.
            and_then (assert (c > 0)) (\<lambda>_.
            and_then (fetch_sub a) (\<lambda>old.
              if old = 1 then
                and_then
                  (if elem_default T = None then ret ()
                   else and_then (default_model T) (\<lambda>d. assert (a \<noteq> d)))
                  (\<lambda>_. and_then (delete_model a) (\<lambda>_. end_lifetime h))
              else end_lifetime h)))))"

subsection \<open>Observers\<close>

text \<open>\<^verbatim>\<open>read()\<close>: \<^verbatim>\<open>assert(_self); return _self->_value;\<close>\<close>

definition read :: "hid \<Rightarrow> 'a state \<Rightarrow> ('a, 'a state) outcome" where
  "read h =
     noexcept
       (and_then (get_self h) (\<lambda>p.
        and_then (assert (p \<noteq> None)) (\<lambda>_. load_value (the p))))"

text \<open>\<^verbatim>\<open>unique()\<close>: \<^verbatim>\<open>assert(_self); return _self->_count.load() == 1;\<close>\<close>

definition unique :: "hid \<Rightarrow> 'a state \<Rightarrow> (bool, 'a state) outcome" where
  "unique h =
     noexcept
       (and_then (get_self h) (\<lambda>p.
        and_then (assert (p \<noteq> None)) (\<lambda>_.
        and_then (load_count (the p)) (\<lambda>c. ret (c = 1)))))"

text \<open>\<^verbatim>\<open>identity(x)\<close>: \<^verbatim>\<open>assert(_self && x._self); return _self == x._self;\<close>\<close>

definition identity :: "hid \<Rightarrow> hid \<Rightarrow> 'a state \<Rightarrow> (bool, 'a state) outcome" where
  "identity h x =
     noexcept
       (and_then (get_self h) (\<lambda>p.
        and_then (get_self x) (\<lambda>q.
        and_then (assert (p \<noteq> None \<and> q \<noteq> None)) (\<lambda>_. ret (p = q)))))"

text \<open>\<^verbatim>\<open>swap(x, y)\<close>: \<^verbatim>\<open>std::swap(x._self, y._self);\<close>\<close>

definition swap :: "hid \<Rightarrow> hid \<Rightarrow> 'a state \<Rightarrow> (unit, 'a state) outcome" where
  "swap x y =
     noexcept
       (and_then (get_self x) (\<lambda>p.
        and_then (get_self y) (\<lambda>q.
        and_then (set_self x q) (\<lambda>_. set_self y p))))"

subsection \<open>Assignment\<close>

text \<open>
  \<^verbatim>\<open>operator=(copy_on_write&& x) noexcept { auto tmp{std::move(x)}; swap(*this, tmp);
  return *this; }\<close>; \<^verbatim>\<open>tmp\<close> is destroyed on return.
\<close>

definition assign_move :: "'a elem_type \<Rightarrow> hid \<Rightarrow> hid \<Rightarrow> 'a state \<Rightarrow> (unit, 'a state) outcome" where
  "assign_move T h x =
     noexcept
       (and_then (ctor_move (Temp 1) x) (\<lambda>_.
        and_then (swap h (Temp 1)) (\<lambda>_. dtor T (Temp 1))))"

text \<open>
  \<^verbatim>\<open>operator=(const copy_on_write& x) noexcept { assert(this != &x);
  return *this = copy_on_write(x); }\<close>; the temporary is destroyed at the end of the
  full expression.
\<close>

definition assign_copy :: "'a elem_type \<Rightarrow> hid \<Rightarrow> hid \<Rightarrow> 'a state \<Rightarrow> (unit, 'a state) outcome" where
  "assign_copy T h x =
     noexcept
       (and_then (assert (h \<noteq> x)) (\<lambda>_.
        and_then (ctor_copy (Temp 0) x) (\<lambda>_.
        and_then (assign_move T h (Temp 0)) (\<lambda>_. dtor T (Temp 0)))))"

text \<open>
  \<^verbatim>\<open>operator=(U&& x) {
      if (_self && unique()) { _self->_value = std::forward<U>(x); return *this; }
      return *this = copy_on_write(std::forward<U>(x));
  }\<close>
\<close>

definition assign_value :: "'a elem_type \<Rightarrow> hid \<Rightarrow> 'a \<Rightarrow> 'a state \<Rightarrow> (unit, 'a state) outcome" where
  "assign_value T h x =
     and_then (get_self h) (\<lambda>p.
     and_then (if p = None then ret False else unique h) (\<lambda>u.
       if p \<noteq> None \<and> u then
         and_then (load_value (the p)) (\<lambda>v.
         and_then (store_value (the p) (fst (elem_assign T v x))) (\<lambda>_.
           case snd (elem_assign T v x) of None \<Rightarrow> ret () | Some e \<Rightarrow> throw e))
       else
         and_then (ctor_value (Temp 0) (elem_copy T x)) (\<lambda>_.
         and_then (assign_move T h (Temp 0)) (\<lambda>_. dtor T (Temp 0)))))"

subsection \<open>Writing\<close>

text \<open>
  The reference \<^verbatim>\<open>_self->_value\<close> that both forms of \<^verbatim>\<open>write\<close> return, as the address of
  the cell it points into.
\<close>

definition value_ref :: "hid \<Rightarrow> 'a state \<Rightarrow> (addr, 'a state) outcome" where
  "value_ref h =
     and_then (get_self h) (\<lambda>p.
       case p of
         None \<Rightarrow> abort Undefined_behaviour
       | Some a \<Rightarrow> and_then (load_count a) (\<lambda>_. ret a))"

text \<open>
  \<^verbatim>\<open>write() { if (!unique()) *this = copy_on_write(read()); return _self->_value; }\<close>
\<close>

definition write_cow :: "'a elem_type \<Rightarrow> hid \<Rightarrow> 'a state \<Rightarrow> (addr, 'a state) outcome" where
  "write_cow T h =
     and_then (unique h) (\<lambda>u.
     and_then
       (if \<not> u then
          and_then (read h) (\<lambda>v.
          and_then (ctor_value (Temp 0) (elem_copy T v)) (\<lambda>_.
          and_then (assign_move T h (Temp 0)) (\<lambda>_. dtor T (Temp 0))))
        else ret ())
       (\<lambda>_. value_ref h))"

text \<open>
  \<^verbatim>\<open>write(Transform transform, Inplace inplace) {
      if (!unique()) { *this = copy_on_write(transform(read())); }
      else { inplace(_self->_value); }
      return _self->_value;
  }\<close>
  \<open>transform\<close> returns a value or throws; the value constructor then builds the value
  of the new cell from that temporary (\<^verbatim>\<open>new model(std::forward<U>(x))\<close>, where \<^verbatim>\<open>U\<close> is
  what \<open>transform\<close> returns, taken to be \<^verbatim>\<open>T\<close>: \<open>elem_move\<close>), which may throw too. \<open>inplace\<close> leaves a value in the cell and may
  throw after that.
\<close>

definition write_with ::
  "'a elem_type \<Rightarrow> ('a \<Rightarrow> exn + 'a) \<Rightarrow> ('a \<Rightarrow> 'a \<times> exn option) \<Rightarrow> hid \<Rightarrow> 'a state \<Rightarrow> (addr, 'a state) outcome" where
  "write_with T transform inplace h =
     and_then (unique h) (\<lambda>u.
     and_then
       (if \<not> u then
          and_then (read h) (\<lambda>v.
          and_then (lift (transform v)) (\<lambda>w.
          and_then (ctor_value (Temp 0) (elem_move T w)) (\<lambda>_.
          and_then (assign_move T h (Temp 0)) (\<lambda>_. dtor T (Temp 0)))))
        else
          and_then (get_self h) (\<lambda>p.
          and_then (load_value (the p)) (\<lambda>v.
          and_then (store_value (the p) (fst (inplace v))) (\<lambda>_.
            case snd (inplace v) of None \<Rightarrow> ret () | Some e \<Rightarrow> throw e))))
       (\<lambda>_. value_ref h))"

subsection \<open>Comparisons\<close>

text \<open>
  All of them are \<^verbatim>\<open>noexcept\<close>. Between two objects:
  \<^verbatim>\<open>x < y\<close> is \<^verbatim>\<open>!x.identity(y) && (*x < *y)\<close>, \<^verbatim>\<open>x == y\<close> is \<^verbatim>\<open>x.identity(y) || (*x == *y)\<close>
  (\<^verbatim>\<open>&&\<close> and \<^verbatim>\<open>||\<close> skip their right operand), \<^verbatim>\<open>x > y\<close> is \<^verbatim>\<open>y < x\<close>,
  \<^verbatim>\<open>x <= y\<close> is \<^verbatim>\<open>!(y < x)\<close>, \<^verbatim>\<open>x >= y\<close> is \<^verbatim>\<open>!(x < y)\<close>, \<^verbatim>\<open>x != y\<close> is \<^verbatim>\<open>!(x == y)\<close>.
  The forms with an \<^verbatim>\<open>element_type\<close> on one side (\<open>_hv\<close>: object, value; \<open>_vh\<close>: value,
  object) are \<^verbatim>\<open>*x < y\<close>, \<^verbatim>\<open>x < *y\<close>, \<^verbatim>\<open>*x == y\<close>, \<^verbatim>\<open>x == *y\<close> and the same rewritings.
\<close>

definition op_lt :: "'a elem_type \<Rightarrow> hid \<Rightarrow> hid \<Rightarrow> 'a state \<Rightarrow> (bool, 'a state) outcome" where
  "op_lt T x y =
     noexcept
       (and_then (identity x y) (\<lambda>i.
          if \<not> i then
            and_then (read x) (\<lambda>u. and_then (read y) (\<lambda>v. lift (elem_lt T u v)))
          else ret False))"

definition op_lt_hv :: "'a elem_type \<Rightarrow> hid \<Rightarrow> 'a \<Rightarrow> 'a state \<Rightarrow> (bool, 'a state) outcome" where
  "op_lt_hv T x y = noexcept (and_then (read x) (\<lambda>u. lift (elem_lt T u y)))"

definition op_lt_vh :: "'a elem_type \<Rightarrow> 'a \<Rightarrow> hid \<Rightarrow> 'a state \<Rightarrow> (bool, 'a state) outcome" where
  "op_lt_vh T x y = noexcept (and_then (read y) (\<lambda>v. lift (elem_lt T x v)))"

definition op_gt :: "'a elem_type \<Rightarrow> hid \<Rightarrow> hid \<Rightarrow> 'a state \<Rightarrow> (bool, 'a state) outcome" where
  "op_gt T x y = noexcept (op_lt T y x)"

definition op_gt_hv :: "'a elem_type \<Rightarrow> hid \<Rightarrow> 'a \<Rightarrow> 'a state \<Rightarrow> (bool, 'a state) outcome" where
  "op_gt_hv T x y = noexcept (op_lt_vh T y x)"

definition op_gt_vh :: "'a elem_type \<Rightarrow> 'a \<Rightarrow> hid \<Rightarrow> 'a state \<Rightarrow> (bool, 'a state) outcome" where
  "op_gt_vh T x y = noexcept (op_lt_hv T y x)"

definition op_le :: "'a elem_type \<Rightarrow> hid \<Rightarrow> hid \<Rightarrow> 'a state \<Rightarrow> (bool, 'a state) outcome" where
  "op_le T x y = noexcept (and_then (op_lt T y x) (\<lambda>b. ret (\<not> b)))"

definition op_le_hv :: "'a elem_type \<Rightarrow> hid \<Rightarrow> 'a \<Rightarrow> 'a state \<Rightarrow> (bool, 'a state) outcome" where
  "op_le_hv T x y = noexcept (and_then (op_lt_vh T y x) (\<lambda>b. ret (\<not> b)))"

definition op_le_vh :: "'a elem_type \<Rightarrow> 'a \<Rightarrow> hid \<Rightarrow> 'a state \<Rightarrow> (bool, 'a state) outcome" where
  "op_le_vh T x y = noexcept (and_then (op_lt_hv T y x) (\<lambda>b. ret (\<not> b)))"

definition op_ge :: "'a elem_type \<Rightarrow> hid \<Rightarrow> hid \<Rightarrow> 'a state \<Rightarrow> (bool, 'a state) outcome" where
  "op_ge T x y = noexcept (and_then (op_lt T x y) (\<lambda>b. ret (\<not> b)))"

definition op_ge_hv :: "'a elem_type \<Rightarrow> hid \<Rightarrow> 'a \<Rightarrow> 'a state \<Rightarrow> (bool, 'a state) outcome" where
  "op_ge_hv T x y = noexcept (and_then (op_lt_hv T x y) (\<lambda>b. ret (\<not> b)))"

definition op_ge_vh :: "'a elem_type \<Rightarrow> 'a \<Rightarrow> hid \<Rightarrow> 'a state \<Rightarrow> (bool, 'a state) outcome" where
  "op_ge_vh T x y = noexcept (and_then (op_lt_vh T x y) (\<lambda>b. ret (\<not> b)))"

definition op_eq :: "'a elem_type \<Rightarrow> hid \<Rightarrow> hid \<Rightarrow> 'a state \<Rightarrow> (bool, 'a state) outcome" where
  "op_eq T x y =
     noexcept
       (and_then (identity x y) (\<lambda>i.
          if i then ret True
          else and_then (read x) (\<lambda>u. and_then (read y) (\<lambda>v. lift (elem_eq T u v)))))"

definition op_eq_hv :: "'a elem_type \<Rightarrow> hid \<Rightarrow> 'a \<Rightarrow> 'a state \<Rightarrow> (bool, 'a state) outcome" where
  "op_eq_hv T x y = noexcept (and_then (read x) (\<lambda>u. lift (elem_eq T u y)))"

definition op_eq_vh :: "'a elem_type \<Rightarrow> 'a \<Rightarrow> hid \<Rightarrow> 'a state \<Rightarrow> (bool, 'a state) outcome" where
  "op_eq_vh T x y = noexcept (and_then (read y) (\<lambda>v. lift (elem_eq T x v)))"

definition op_ne :: "'a elem_type \<Rightarrow> hid \<Rightarrow> hid \<Rightarrow> 'a state \<Rightarrow> (bool, 'a state) outcome" where
  "op_ne T x y = noexcept (and_then (op_eq T x y) (\<lambda>b. ret (\<not> b)))"

definition op_ne_hv :: "'a elem_type \<Rightarrow> hid \<Rightarrow> 'a \<Rightarrow> 'a state \<Rightarrow> (bool, 'a state) outcome" where
  "op_ne_hv T x y = noexcept (and_then (op_eq_hv T x y) (\<lambda>b. ret (\<not> b)))"

definition op_ne_vh :: "'a elem_type \<Rightarrow> 'a \<Rightarrow> hid \<Rightarrow> 'a state \<Rightarrow> (bool, 'a state) outcome" where
  "op_ne_vh T x y = noexcept (and_then (op_eq_vh T x y) (\<lambda>b. ret (\<not> b)))"

subsection \<open>Programs over the interface\<close>

text \<open>
  What a caller can do to its objects \<open>Named n\<close> (the observers and comparisons change
  nothing and are left out). A state is reachable when a sequence of calls leads to it
  from the start of the process; the state a thrown exception leaves is one.
\<close>

datatype 'a call =
    Default_ctor nat
  | Value_ctor nat "exn + 'a"
  | Copy_ctor nat nat
  | Move_ctor nat nat
  | Dtor nat
  | Copy_assign nat nat
  | Move_assign nat nat
  | Value_assign nat 'a
  | Write nat
  | Write_with nat "'a \<Rightarrow> exn + 'a" "'a \<Rightarrow> 'a \<times> exn option"
  | Swap nat nat

fun exec :: "'a elem_type \<Rightarrow> 'a call \<Rightarrow> 'a state \<Rightarrow> (unit, 'a state) outcome" where
  "exec T (Default_ctor n) = ctor_default T (Named n)"
| "exec T (Value_ctor n c) = ctor_value (Named n) c"
| "exec T (Copy_ctor n x) = ctor_copy (Named n) (Named x)"
| "exec T (Move_ctor n x) = ctor_move (Named n) (Named x)"
| "exec T (Dtor n) = dtor T (Named n)"
| "exec T (Copy_assign n x) = assign_copy T (Named n) (Named x)"
| "exec T (Move_assign n x) = assign_move T (Named n) (Named x)"
| "exec T (Value_assign n v) = assign_value T (Named n) v"
| "exec T (Write n) = and_then (write_cow T (Named n)) (\<lambda>_. ret ())"
| "exec T (Write_with n f g) = and_then (write_with T f g (Named n)) (\<lambda>_. ret ())"
| "exec T (Swap n x) = swap (Named n) (Named x)"

fun after :: "('r, 's) outcome \<Rightarrow> 's option" where
  "after (Return r s) = Some s"
| "after (Throw e s) = Some s"
| "after (Fatal f) = None"

inductive reachable :: "'a elem_type \<Rightarrow> 'a state \<Rightarrow> bool" for T :: "'a elem_type" where
  start: "reachable T init_state"
| step: "reachable T s \<Longrightarrow> after (exec T c s) = Some s' \<Longrightarrow> reachable T s'"

subsection \<open>The invariant\<close>

text \<open>
  \<open>refs s p\<close> is the number of objects whose \<^verbatim>\<open>_self\<close> is \<open>p\<close>. A cell is in order when
  its count is that number, plus one for the static; an address that holds no cell is
  referenced by no object. An address is in order when it was deleted exactly once if
  \<^verbatim>\<open>new\<close> handed it out and it holds no cell any more, and never otherwise. \<open>hoare P m Q E\<close>:
  from a state in \<open>P\<close>, \<open>m\<close> returns in \<open>Q\<close> and throws in \<open>E\<close>. \<open>temps_are A\<close>: the
  temporaries alive are those numbered in \<open>A\<close>. A state is \<open>valid\<close> when the invariant
  holds and no temporary is alive, as between two calls of a program.
\<close>

definition refs_of :: "(hid \<rightharpoonup> addr option) \<Rightarrow> addr \<Rightarrow> nat" where
  "refs_of H p = card {h. H h = Some (Some p)}"

definition refs :: "'a state \<Rightarrow> addr \<Rightarrow> nat" where
  "refs s p = refs_of (handles s) p"

definition extra :: "addr \<Rightarrow> nat" where
  "extra p = (if p = default_s then 1 else 0)"

definition cell_ok :: "'a state \<Rightarrow> addr \<Rightarrow> bool" where
  "cell_ok s p \<longleftrightarrow>
     (case cells s p of
        None \<Rightarrow> refs s p = 0
      | Some m \<Rightarrow> count m = refs s p + extra p \<and> 0 < count m)"

definition addr_ok :: "'a state \<Rightarrow> addr \<Rightarrow> bool" where
  "addr_ok s p \<longleftrightarrow>
     (if cells s p = None
      then count_list (deleted s) p = (if p \<noteq> default_s \<and> p < next_addr s then 1 else 0)
      else count_list (deleted s) p = 0 \<and> p < next_addr s)"

definition state_inv :: "'a state \<Rightarrow> bool" where
  "state_inv s \<longleftrightarrow>
     finite (dom (handles s)) \<and> default_s < next_addr s \<and> (\<forall>p. cell_ok s p \<and> addr_ok s p)"

definition inv_with :: "bool \<Rightarrow> 'a state \<Rightarrow> bool" where
  "inv_with b s \<longleftrightarrow> state_inv s \<and> (b \<longrightarrow> cells s default_s \<noteq> None)"

definition hoare ::
  "('s \<Rightarrow> bool) \<Rightarrow> ('s \<Rightarrow> ('r, 's) outcome) \<Rightarrow> ('s \<Rightarrow> bool) \<Rightarrow> ('s \<Rightarrow> bool) \<Rightarrow> bool" where
  "hoare P m Q E \<longleftrightarrow>
     (\<forall>s. P s \<longrightarrow> (case m s of Return r s' \<Rightarrow> Q s' | Throw e s' \<Rightarrow> E s' | Fatal f \<Rightarrow> True))"

definition no_throw :: "('s \<Rightarrow> ('r, 's) outcome) \<Rightarrow> bool" where
  "no_throw m \<longleftrightarrow> (\<forall>s e s'. m s \<noteq> Throw e s')"

fun tid :: "hid \<Rightarrow> nat set" where
  "tid (Named n) = {}"
| "tid (Temp k) = {k}"

definition temps_are :: "nat set \<Rightarrow> 'a state \<Rightarrow> bool" where
  "temps_are A s \<longleftrightarrow> (\<forall>k. (handles s (Temp k) \<noteq> None) = (k \<in> A))"

definition valid :: "'a state \<Rightarrow> bool" where
  "valid s \<longleftrightarrow> state_inv s \<and> temps_are {} s"

subsection \<open>An element type and states to run the operations on\<close>

text \<open>
  \<open>nat_T\<close> is a well-behaved element type (nothing throws, a copy or a move gives an
  equal value, assignment stores its right-hand side); \<open>throwing_T\<close> differs in that
  every operation throws. The states are those after
  \<^verbatim>\<open>copy_on_write<T> h0(5);\<close> (\<open>one_owner\<close>), then \<^verbatim>\<open>copy_on_write<T> h1(h0);\<close>
  (\<open>two_sharers\<close>) or \<^verbatim>\<open>copy_on_write<T> h1(std::move(h0));\<close> (\<open>moved_from\<close>) or
  \<^verbatim>\<open>copy_on_write<T> h1(7);\<close> (\<open>two_cells\<close>), and after \<^verbatim>\<open>copy_on_write<T> h0;\<close> alone
  (\<open>default_one\<close>).
\<close>

definition nat_T :: "nat elem_type" where
  "nat_T = \<lparr>elem_default = Some (Inr 0), elem_copy = Inr, elem_move = Inr,
     elem_assign = (\<lambda>_ x. (x, None)),
     elem_eq = (\<lambda>a b. Inr (a = b)), elem_lt = (\<lambda>a b. Inr (a < b))\<rparr>"


definition one_owner :: "nat state" where
  "one_owner = \<lparr>cells = [1 \<mapsto> \<lparr>count = 1, val = 5\<rparr>], next_addr = 2, deleted = [],
     handles = [Named 0 \<mapsto> Some 1]\<rparr>"

definition two_sharers :: "nat state" where
  "two_sharers = \<lparr>cells = [1 \<mapsto> \<lparr>count = 2, val = 5\<rparr>], next_addr = 2, deleted = [],
     handles = [Named 0 \<mapsto> Some 1, Named 1 \<mapsto> Some 1]\<rparr>"

definition moved_from :: "nat state" where
  "moved_from = \<lparr>cells = [1 \<mapsto> \<lparr>count = 1, val = 5\<rparr>], next_addr = 2, deleted = [],
     handles = [Named 0 \<mapsto> None, Named 1 \<mapsto> Some 1]\<rparr>"

definition two_cells :: "nat state" where
  "two_cells = \<lparr>cells = [1 \<mapsto> \<lparr>count = 1, val = 5\<rparr>, 2 \<mapsto> \<lparr>count = 1, val = 7\<rparr>],
     next_addr = 3, deleted = [], handles = [Named 0 \<mapsto> Some 1, Named 1 \<mapsto> Some 2]\<rparr>"

definition default_one :: "nat state" where
  "default_one = \<lparr>cells = [0 \<mapsto> \<lparr>count = 2, val = 0\<rparr>], next_addr = 1, deleted = [],
     handles = [Named 0 \<mapsto> Some 0]\<rparr>"

section \<open>Properties\<close>

lemmas run_defs = ret_def throw_def abort_def and_then_def assert_def noexcept_def lift_def
  load_count_def load_value_def store_value_def fetch_add_def fetch_sub_def new_model_def
  delete_model_def default_model_def get_self_def set_self_def init_self_def end_lifetime_def

subsection \<open>Counting references\<close>

lemma finite_refs: "finite (dom H) \<Longrightarrow> finite {h. H h = Some (Some p)}"
  by (erule rev_finite_subset) (auto simp: dom_def)

lemma refs_of_split:
  assumes "finite (dom H)"
  shows "refs_of H p =
           card {k. k \<noteq> h \<and> H k = Some (Some p)} + (if H h = Some (Some p) then 1 else 0)"
proof -
  let ?R = "{k. k \<noteq> h \<and> H k = Some (Some p)}"
  have fin: "finite ?R"
    using finite_refs[OF assms, of p] by (rule rev_finite_subset) auto
  have nin: "h \<notin> ?R" by simp
  show ?thesis
  proof (cases "H h = Some (Some p)")
    case True
    then have "{k. H k = Some (Some p)} = insert h ?R" by auto
    then have "refs_of H p = card (insert h ?R)" by (simp only: refs_of_def)
    also have "\<dots> = Suc (card ?R)" using fin nin by (rule card_insert_disjoint)
    finally show ?thesis using True by simp
  next
    case False
    then have "{k. H k = Some (Some p)} = ?R" by auto
    then have "refs_of H p = card ?R" by (simp only: refs_of_def)
    then show ?thesis using False by simp
  qed
qed

lemma refs_of_upd:
  assumes "finite (dom H)"
  shows "refs_of (H(h := v)) p + (if H h = Some (Some p) then 1 else 0) =
           refs_of H p + (if v = Some (Some p) then 1 else 0)"
proof -
  have fin': "finite (dom (H(h := v)))" using assms by (cases v) simp_all
  have same: "{k. k \<noteq> h \<and> (H(h := v)) k = Some (Some p)} = {k. k \<noteq> h \<and> H k = Some (Some p)}"
    by auto
  have "refs_of (H(h := v)) p =
          card {k. k \<noteq> h \<and> H k = Some (Some p)} + (if v = Some (Some p) then 1 else 0)"
    using refs_of_split[OF fin', of p h] by (simp only: same fun_upd_same)
  then show ?thesis
    using refs_of_split[OF assms, of p h] by simp
qed

lemma refs_of_pos: "finite (dom H) \<Longrightarrow> H h = Some (Some p) \<Longrightarrow> 0 < refs_of H p"
  unfolding refs_of_def using finite_refs[of H p] by (auto simp: card_gt_0_iff)

lemma refs_of_two:
  assumes "finite (dom H)" "H a = Some (Some p)" "H b = Some (Some p)" "a \<noteq> b"
  shows "2 \<le> refs_of H p"
proof -
  have "{a, b} \<subseteq> {h. H h = Some (Some p)}" using assms by simp
  then have "card {a, b} \<le> card {h. H h = Some (Some p)}"
    using finite_refs[OF assms(1), of p] by (rule card_mono[rotated])
  then show ?thesis using assms(4) by (simp add: refs_of_def)
qed

subsection \<open>State changes that keep the invariant\<close>

lemma state_invI:
  "finite (dom (handles s)) \<Longrightarrow> default_s < next_addr s \<Longrightarrow> (\<And>p. cell_ok s p) \<Longrightarrow>
   (\<And>p. addr_ok s p) \<Longrightarrow> state_inv s"
  by (simp add: state_inv_def)

lemma inv_fin: "state_inv s \<Longrightarrow> finite (dom (handles s))"
  by (simp add: state_inv_def)

lemma inv_cell: "state_inv s \<Longrightarrow> cell_ok s p"
  by (simp add: state_inv_def)

lemma inv_addr: "state_inv s \<Longrightarrow> addr_ok s p"
  by (simp add: state_inv_def)

lemma inv_next: "state_inv s \<Longrightarrow> default_s < next_addr s"
  by (simp add: state_inv_def)

lemma inv_attach:
  assumes i: "state_inv s" and h: "handles s h \<in> {None, Some None}" and p: "cells s p = Some m"
    and c': "cells s' = (cells s)(p \<mapsto> m\<lparr>count := count m + 1\<rparr>)"
    and h': "handles s' = (handles s)(h \<mapsto> Some p)"
    and n': "next_addr s' = next_addr s" and d': "deleted s' = deleted s"
  shows "state_inv s'"
proof (rule state_invI)
  have fin: "finite (dom (handles s))" using i by (rule inv_fin)
  show "finite (dom (handles s'))" using fin by (simp add: h')
  show "default_s < next_addr s'" using inv_next[OF i] by (simp add: n')
  fix q
  show "cell_ok s' q"
    using inv_cell[OF i, of q] inv_cell[OF i, of p] h p
      refs_of_upd[OF fin, of h "Some (Some p)" q]
    by (auto simp add: cell_ok_def refs_def extra_def c' h' split: option.splits if_splits)
  show "addr_ok s' q"
    using inv_addr[OF i, of q] p by (auto simp add: addr_ok_def c' n' d' split: if_splits)
qed

lemma inv_static:
  assumes i: "state_inv s" and p: "cells s default_s = None"
    and c': "cells s' = (cells s)(default_s \<mapsto> \<lparr>count = 1, val = d\<rparr>)"
    and h': "handles s' = handles s"
    and n': "next_addr s' = next_addr s" and d': "deleted s' = deleted s"
  shows "state_inv s'"
proof (rule state_invI)
  show "finite (dom (handles s'))" using inv_fin[OF i] by (simp add: h')
  show "default_s < next_addr s'" using inv_next[OF i] by (simp add: n')
  fix q
  show "cell_ok s' q"
    using inv_cell[OF i, of q] p
    by (auto simp add: cell_ok_def refs_def extra_def c' h' split: option.splits)
  show "addr_ok s' q"
    using inv_addr[OF i, of q] inv_next[OF i] p
    by (auto simp add: addr_ok_def c' n' d' split: if_splits)
qed

lemma inv_fresh:
  assumes "state_inv s"
  shows "cells s (next_addr s) = None" and "next_addr s \<noteq> default_s"
  using inv_addr[OF assms, of "next_addr s"] inv_next[OF assms]
  by (auto simp add: addr_ok_def split: if_splits)

lemma inv_alloc:
  assumes i: "state_inv s" and h: "handles s h \<in> {None, Some None}"
    and c': "cells s' = (cells s)(next_addr s \<mapsto> \<lparr>count = 1, val = v\<rparr>)"
    and h': "handles s' = (handles s)(h \<mapsto> Some (next_addr s))"
    and n': "next_addr s' = Suc (next_addr s)" and d': "deleted s' = deleted s"
  shows "state_inv s'"
proof (rule state_invI)
  have fin: "finite (dom (handles s))" using i by (rule inv_fin)
  note fresh = inv_fresh[OF i]
  show "finite (dom (handles s'))" using fin by (simp add: h')
  show "default_s < next_addr s'" using inv_next[OF i] by (simp add: n')
  fix q
  show "cell_ok s' q"
    using inv_cell[OF i, of q] inv_cell[OF i, of "next_addr s"] h fresh
      refs_of_upd[OF fin, of h "Some (Some (next_addr s))" q]
    by (auto simp add: cell_ok_def refs_def extra_def c' h' split: option.splits if_splits)
  show "addr_ok s' q"
    using inv_addr[OF i, of q] fresh
    by (auto simp add: addr_ok_def c' n' d' split: if_splits)
qed

lemma inv_handles2:
  assumes i: "state_inv s"
    and bal: "\<And>q. (if a = Some (Some q) then 1 else 0) + (if b = Some (Some q) then 1 else (0::nat)) =
              (if handles s x = Some (Some q) then 1 else 0) +
              (if handles s y = Some (Some q) then 1 else 0)"
    and ne: "x \<noteq> y"
    and c': "cells s' = cells s"
    and h': "handles s' = (handles s)(x := a, y := b)"
    and n': "next_addr s' = next_addr s" and d': "deleted s' = deleted s"
  shows "state_inv s'"
proof (rule state_invI)
  have fin: "finite (dom (handles s))" using i by (rule inv_fin)
  have fin1: "finite (dom ((handles s)(x := a)))" using fin by (cases a) simp_all
  show "finite (dom (handles s'))" using fin1 by (cases b) (simp_all add: h')
  show "default_s < next_addr s'" using inv_next[OF i] by (simp add: n')
  fix q
  have "refs_of ((handles s)(x := a, y := b)) q = refs_of (handles s) q"
    using refs_of_upd[OF fin, of x a q] refs_of_upd[OF fin1, of y b q] bal[of q] ne
    by (simp split: if_splits)
  then show "cell_ok s' q"
    using inv_cell[OF i, of q] by (auto simp add: cell_ok_def refs_def c' h' split: option.splits)
  show "addr_ok s' q"
    using inv_addr[OF i, of q] by (simp add: addr_ok_def c' n' d')
qed

lemma inv_handles1:
  assumes i: "state_inv s" and h: "handles s h \<in> {None, Some None}" and a: "a \<in> {None, Some None}"
    and c': "cells s' = cells s"
    and h': "handles s' = (handles s)(h := a)"
    and n': "next_addr s' = next_addr s" and d': "deleted s' = deleted s"
  shows "state_inv s'"
proof (rule state_invI)
  have fin: "finite (dom (handles s))" using i by (rule inv_fin)
  show "finite (dom (handles s'))" using fin by (cases a) (simp_all add: h')
  show "default_s < next_addr s'" using inv_next[OF i] by (simp add: n')
  fix q
  have "refs_of ((handles s)(h := a)) q = refs_of (handles s) q"
    using refs_of_upd[OF fin, of h a q] h a by (auto split: if_splits)
  then show "cell_ok s' q"
    using inv_cell[OF i, of q] by (auto simp add: cell_ok_def refs_def c' h' split: option.splits)
  show "addr_ok s' q"
    using inv_addr[OF i, of q] by (simp add: addr_ok_def c' n' d')
qed

lemma inv_detach:
  assumes i: "state_inv s" and h: "handles s h = Some (Some p)" and p: "cells s p = Some m"
    and m: "count m \<noteq> 1"
    and c': "cells s' = (cells s)(p \<mapsto> m\<lparr>count := count m - 1\<rparr>)"
    and h': "handles s' = (handles s)(h := None)"
    and n': "next_addr s' = next_addr s" and d': "deleted s' = deleted s"
  shows "state_inv s'"
proof (rule state_invI)
  have fin: "finite (dom (handles s))" using i by (rule inv_fin)
  show "finite (dom (handles s'))" using fin by (simp add: h')
  show "default_s < next_addr s'" using inv_next[OF i] by (simp add: n')
  fix q
  show "cell_ok s' q"
    using inv_cell[OF i, of q] inv_cell[OF i, of p] h p m
      refs_of_upd[OF fin, of h None q]
    by (auto simp add: cell_ok_def refs_def extra_def c' h' split: option.splits if_splits)
  show "addr_ok s' q"
    using inv_addr[OF i, of q] p by (auto simp add: addr_ok_def c' n' d' split: if_splits)
qed

lemma inv_last_not_static:
  assumes i: "state_inv s" and h: "handles s h = Some (Some p)" and p: "cells s p = Some m"
    and m: "count m = 1"
  shows "p \<noteq> default_s"
proof -
  have "0 < refs s p" using refs_of_pos[OF inv_fin[OF i] h] by (simp add: refs_def)
  then show ?thesis
    using inv_cell[OF i, of p] p m by (auto simp add: cell_ok_def extra_def)
qed

lemma inv_release:
  assumes i: "state_inv s" and h: "handles s h = Some (Some p)" and p: "cells s p = Some m"
    and m: "count m = 1"
    and c': "cells s' = (cells s)(p := None)"
    and h': "handles s' = (handles s)(h := None)"
    and n': "next_addr s' = next_addr s" and d': "deleted s' = p # deleted s"
  shows "state_inv s'"
proof (rule state_invI)
  have fin: "finite (dom (handles s))" using i by (rule inv_fin)
  have nd: "p \<noteq> default_s" using i h p m by (rule inv_last_not_static)
  show "finite (dom (handles s'))" using fin by (simp add: h')
  show "default_s < next_addr s'" using inv_next[OF i] by (simp add: n')
  fix q
  show "cell_ok s' q"
    using inv_cell[OF i, of q] inv_cell[OF i, of p] h p m nd
      refs_of_upd[OF fin, of h None q]
    by (auto simp add: cell_ok_def refs_def extra_def c' h' split: option.splits if_splits)
  show "addr_ok s' q"
    using inv_addr[OF i, of q] inv_addr[OF i, of p] p nd
    by (auto simp add: addr_ok_def c' n' d' split: if_splits)
qed

lemma inv_store:
  assumes i: "state_inv s" and p: "cells s p = Some m"
    and c': "cells s' = (cells s)(p \<mapsto> m\<lparr>val := v\<rparr>)"
    and h': "handles s' = handles s"
    and n': "next_addr s' = next_addr s" and d': "deleted s' = deleted s"
  shows "state_inv s'"
proof (rule state_invI)
  show "finite (dom (handles s'))" using inv_fin[OF i] by (simp add: h')
  show "default_s < next_addr s'" using inv_next[OF i] by (simp add: n')
  fix q
  show "cell_ok s' q"
    using inv_cell[OF i, of q] p
    by (auto simp add: cell_ok_def refs_def c' h' split: option.splits)
  show "addr_ok s' q"
    using inv_addr[OF i, of q] p by (auto simp add: addr_ok_def c' n' d' split: if_splits)
qed

subsection \<open>Hoare rules\<close>

lemma hoareI:
  "(\<And>s r s'. P s \<Longrightarrow> m s = Return r s' \<Longrightarrow> Q s') \<Longrightarrow>
   (\<And>s e s'. P s \<Longrightarrow> m s = Throw e s' \<Longrightarrow> E s') \<Longrightarrow> hoare P m Q E"
  by (simp add: hoare_def split: outcome.splits)

lemma hoare_Return: "hoare P m Q E \<Longrightarrow> P s \<Longrightarrow> m s = Return r s' \<Longrightarrow> Q s'"
  by (simp add: hoare_def split: outcome.splits)

lemma hoare_Throw: "hoare P m Q E \<Longrightarrow> P s \<Longrightarrow> m s = Throw e s' \<Longrightarrow> E s'"
  by (simp add: hoare_def split: outcome.splits)

lemma hoare_and_then:
  assumes m: "hoare P m R E" and f: "\<And>r. hoare R (f r) Q E"
  shows "hoare P (and_then m f) Q E"
proof (rule hoareI)
  fix s r s' assume P: "P s" and eq: "and_then m f s = Return r s'"
  then obtain q t where mt: "m s = Return q t" and ft: "f q t = Return r s'"
    by (auto simp add: and_then_def split: outcome.splits)
  from hoare_Return[OF m P mt] have "R t" .
  from hoare_Return[OF f this ft] show "Q s'" .
next
  fix s e s' assume P: "P s" and eq: "and_then m f s = Throw e s'"
  then consider "m s = Throw e s'" | q t where "m s = Return q t" "f q t = Throw e s'"
    by (auto simp add: and_then_def split: outcome.splits)
  then show "E s'"
  proof cases
    case 1
    from hoare_Throw[OF m P 1] show ?thesis .
  next
    case 2
    from hoare_Return[OF m P 2(1)] have "R t" .
    from hoare_Throw[OF f this 2(2)] show ?thesis .
  qed
qed

lemma hoare_noexcept:
  assumes "hoare P m Q (\<lambda>_. True)"
  shows "hoare P (noexcept m) Q E"
proof (rule hoareI)
  fix s r s' assume P: "P s" and eq: "noexcept m s = Return r s'"
  then have "m s = Return r s'" by (auto simp add: noexcept_def split: outcome.splits)
  from hoare_Return[OF assms P this] show "Q s'" .
next
  fix s e s' assume "noexcept m s = Throw e s'"
  then show "E s'" by (auto simp add: noexcept_def split: outcome.splits)
qed

lemma hoare_weaken:
  assumes "hoare P m Q E" and "\<And>s. P' s \<Longrightarrow> P s" and "\<And>s. Q s \<Longrightarrow> Q' s" and "\<And>s. E s \<Longrightarrow> E' s"
  shows "hoare P' m Q' E'"
proof (rule hoareI)
  fix s r s' assume "P' s" and eq: "m s = Return r s'"
  then have "P s" using assms(2) by simp
  from hoare_Return[OF assms(1) this eq] show "Q' s'" using assms(3) by simp
next
  fix s e s' assume "P' s" and eq: "m s = Throw e s'"
  then have "P s" using assms(2) by simp
  from hoare_Throw[OF assms(1) this eq] show "E' s'" using assms(4) by simp
qed

lemma hoare_conj:
  assumes "hoare P m Q E" and "hoare P' m Q' E'"
  shows "hoare (\<lambda>s. P s \<and> P' s) m (\<lambda>s. Q s \<and> Q' s) (\<lambda>s. E s \<and> E' s)"
proof (rule hoareI)
  fix s r s' assume "P s \<and> P' s" and eq: "m s = Return r s'"
  then show "Q s' \<and> Q' s'"
    using hoare_Return[OF assms(1) _ eq] hoare_Return[OF assms(2) _ eq] by simp
next
  fix s e s' assume "P s \<and> P' s" and eq: "m s = Throw e s'"
  then show "E s' \<and> E' s'"
    using hoare_Throw[OF assms(1) _ eq] hoare_Throw[OF assms(2) _ eq] by simp
qed

lemma hoare_ret: "hoare P (ret r) P E"
  by (simp add: hoare_def ret_def)

lemma hoare_throw: "hoare P (throw e) Q P"
  by (simp add: hoare_def throw_def)

lemma hoare_abort: "hoare P (abort f) Q E"
  by (simp add: hoare_def abort_def)

lemma hoare_assert: "hoare P (assert b) P E"
  by (simp add: hoare_def assert_def ret_def abort_def)

lemma hoare_lift: "hoare P (lift c) P P"
  by (cases c) (simp_all add: hoare_def lift_def ret_def throw_def)

lemma hoare_get_self: "hoare P (get_self h) P E"
  by (simp add: hoare_def get_self_def split: option.splits)

lemma hoare_load_count: "hoare P (load_count p) P E"
  by (simp add: hoare_def load_count_def split: option.splits)

lemma hoare_load_value: "hoare P (load_value p) P E"
  by (simp add: hoare_def load_value_def split: option.splits)

lemma hoare_read: "hoare P (read h) P E"
  by (auto simp add: hoare_def read_def run_defs split: option.splits)

lemma hoare_unique: "hoare P (unique h) P E"
  by (auto simp add: hoare_def unique_def run_defs split: option.splits)

lemma hoare_value_ref: "hoare P (value_ref h) P E"
  by (auto simp add: hoare_def value_ref_def run_defs split: option.splits)

lemma no_throw_noexcept: "no_throw (noexcept m)"
  by (simp add: no_throw_def noexcept_def split: outcome.splits)

lemma hoareI_no_throw:
  "no_throw m \<Longrightarrow> (\<And>s r s'. P s \<Longrightarrow> m s = Return r s' \<Longrightarrow> Q s') \<Longrightarrow> hoare P m Q E"
  by (rule hoareI) (auto simp add: no_throw_def)

lemma no_throw_ops:
  "no_throw (ctor_copy h x)" "no_throw (ctor_move h x)" "no_throw (dtor T h)"
  "no_throw (swap x y)" "no_throw (assign_move T h x)" "no_throw (assign_copy T h x)"
  by (simp_all add: ctor_copy_def ctor_move_def dtor_def swap_def assign_move_def
        assign_copy_def no_throw_noexcept)

text \<open>
  The calls that change the state keep the invariant, and never take the static away
  once it is initialised (\<open>inv_with True\<close>).
\<close>

lemma inv_withI:
  "inv_with b s \<Longrightarrow> state_inv s' \<Longrightarrow> (cells s default_s \<noteq> None \<Longrightarrow> cells s' default_s \<noteq> None) \<Longrightarrow>
   inv_with b s'"
  by (simp add: inv_with_def)

lemma inv_withD: "inv_with b s \<Longrightarrow> state_inv s"
  by (simp add: inv_with_def)

lemma inv_store_value: "hoare (inv_with b) (store_value p v) (inv_with b) E"
proof (rule hoareI_no_throw)
  show "no_throw (store_value p v)"
    by (simp add: no_throw_def store_value_def split: option.splits)
next
  fix s :: "'a state" and r s'
  assume ib: "inv_with b s" and eq: "store_value p v s = Return r s'"
  note i = inv_withD[OF ib]
  from eq obtain m where m: "cells s p = Some m"
    and s': "s' = s\<lparr>cells := (cells s)(p \<mapsto> m\<lparr>val := v\<rparr>)\<rparr>"
    by (auto simp add: store_value_def split: option.splits)
  show "inv_with b s'"
  proof (rule inv_withI[OF ib])
    show "state_inv s'" using inv_store[OF i m, of s' v] s' by simp
  qed (simp add: s')
qed

lemma ctor_default_Return:
  assumes "ctor_default T h s = Return r s'"
  shows "\<exists>s1 m. handles s1 = handles s \<and> next_addr s1 = next_addr s \<and> deleted s1 = deleted s \<and>
           (s1 = s \<or> (\<exists>d. cells s default_s = None \<and>
                         cells s1 = (cells s)(default_s \<mapsto> \<lparr>count = 1, val = d\<rparr>))) \<and>
           handles s h = None \<and> cells s1 default_s = Some m \<and>
           cells s' = (cells s1)(default_s \<mapsto> m\<lparr>count := count m + 1\<rparr>) \<and>
           handles s' = (handles s1)(h \<mapsto> Some default_s) \<and>
           next_addr s' = next_addr s1 \<and> deleted s' = deleted s1"
proof (cases "cells s default_s")
  case (Some m)
  then show ?thesis
    using assms
    by (intro exI[of _ s] exI[of _ m])
       (auto simp add: ctor_default_def run_defs split: option.splits)
next
  case None
  then obtain d where d: "elem_default T = Some (Inr d)"
    using assms by (auto simp add: ctor_default_def run_defs split: option.splits sum.splits)
  show ?thesis
    using assms None d
    by (intro exI[of _ "s\<lparr>cells := (cells s)(default_s \<mapsto> \<lparr>count = 1, val = d\<rparr>)\<rparr>"]
          exI[of _ "\<lparr>count = 1, val = d\<rparr>"])
       (auto simp add: ctor_default_def run_defs split: option.splits)
qed

lemma inv_ctor_default: "hoare (inv_with b) (ctor_default T h) (inv_with b) (inv_with b)"
proof (rule hoareI)
  fix s :: "'a state" and r s'
  assume ib: "inv_with b s" and eq: "ctor_default T h s = Return r s'"
  note i = inv_withD[OF ib]
  from ctor_default_Return[OF eq] obtain s1 m where
    s1: "handles s1 = handles s" "next_addr s1 = next_addr s" "deleted s1 = deleted s"
      "s1 = s \<or> (\<exists>d. cells s default_s = None \<and>
                         cells s1 = (cells s)(default_s \<mapsto> \<lparr>count = 1, val = d\<rparr>))"
    and h: "handles s h = None" and m: "cells s1 default_s = Some m"
    and s': "cells s' = (cells s1)(default_s \<mapsto> m\<lparr>count := count m + 1\<rparr>)"
      "handles s' = (handles s1)(h \<mapsto> Some default_s)"
      "next_addr s' = next_addr s1" "deleted s' = deleted s1"
    by blast
  have i1: "state_inv s1"
    using s1(4) i inv_static[OF i _ _ s1(1,2,3)] by auto
  show "inv_with b s'"
  proof (rule inv_withI[OF ib])
    show "state_inv s'" using inv_attach[OF i1 _ m s'] h s1(1) by simp
  qed (simp add: s')
next
  fix s :: "'a state" and e s'
  assume i: "inv_with b s" and "ctor_default T h s = Throw e s'"
  then have "s' = s"
    by (auto simp add: ctor_default_def run_defs split: option.splits sum.splits)
  then show "inv_with b s'" using i by simp
qed

lemma inv_ctor_value: "hoare (inv_with b) (ctor_value h c) (inv_with b) (inv_with b)"
proof (rule hoareI)
  fix s :: "'a state" and r s'
  assume ib: "inv_with b s" and eq: "ctor_value h c s = Return r s'"
  note i = inv_withD[OF ib]
  from eq obtain v where h: "handles s h = None" and
    s': "s' = s\<lparr>cells := (cells s)(next_addr s \<mapsto> \<lparr>count = 1, val = v\<rparr>),
            next_addr := Suc (next_addr s),
            handles := (handles s)(h \<mapsto> Some (next_addr s))\<rparr>"
    by (auto simp add: ctor_value_def run_defs split: option.splits sum.splits)
  show "inv_with b s'"
  proof (rule inv_withI[OF ib])
    show "state_inv s'" using inv_alloc[OF i, of h s' v] h s' by simp
  qed (simp add: s')
next
  fix s :: "'a state" and e s'
  assume i: "inv_with b s" and "ctor_value h c s = Throw e s'"
  then have "s' = s"
    by (auto simp add: ctor_value_def run_defs split: option.splits sum.splits)
  then show "inv_with b s'" using i by simp
qed

lemma inv_ctor_copy: "hoare (inv_with b) (ctor_copy h x) (inv_with b) E"
proof (rule hoareI_no_throw[OF no_throw_ops(1)])
  fix s :: "'a state" and r s'
  assume ib: "inv_with b s" and eq: "ctor_copy h x s = Return r s'"
  note i = inv_withD[OF ib]
  from eq obtain p m where f: "handles s h = None" "cells s p = Some m"
    and s': "s' = s\<lparr>cells := (cells s)(p \<mapsto> m\<lparr>count := count m + 1\<rparr>),
            handles := (handles s)(h \<mapsto> Some p)\<rparr>"
    by (auto simp add: ctor_copy_def run_defs split: option.splits if_splits)
  show "inv_with b s'"
  proof (rule inv_withI[OF ib])
    show "state_inv s'" using inv_attach[OF i, of h p m s'] f s' by simp
  qed (simp add: s')
qed

lemma inv_ctor_move: "hoare (inv_with b) (ctor_move h x) (inv_with b) E"
proof (rule hoareI_no_throw[OF no_throw_ops(2)])
  fix s :: "'a state" and r s'
  assume ib: "inv_with b s" and eq: "ctor_move h x s = Return r s'"
  note i = inv_withD[OF ib]
  from eq obtain p where f: "handles s x = Some (Some p)" "handles s h = None" "x \<noteq> h"
    "s' = s\<lparr>handles := (handles s)(x := Some None, h := Some (Some p))\<rparr>"
    by (auto simp add: ctor_move_def run_defs split: option.splits if_splits)
  show "inv_with b s'"
  proof (rule inv_withI[OF ib])
    show "state_inv s'"
      by (rule inv_handles2[OF i _ f(3), of "Some None" "Some (Some p)"]) (simp_all add: f)
  qed (simp add: f)
qed

lemma inv_swap: "hoare (inv_with b) (swap x y) (inv_with b) E"
proof (rule hoareI_no_throw[OF no_throw_ops(4)])
  fix s :: "'a state" and r s'
  assume ib: "inv_with b s" and eq: "swap x y s = Return r s'"
  note i = inv_withD[OF ib]
  from eq obtain p q where f: "handles s x = Some p" "handles s y = Some q"
    "s' = s\<lparr>handles := (handles s)(x := Some q, y := Some p)\<rparr>"
    by (auto simp add: swap_def run_defs split: option.splits if_splits)
  show "inv_with b s'"
  proof (rule inv_withI[OF ib])
    show "state_inv s'"
    proof (cases "x = y")
      case True
      then have "handles s' = handles s" using f by auto
      then show ?thesis
        using i f(3) by (simp add: state_inv_def cell_ok_def addr_ok_def refs_def)
    next
      case False
      show ?thesis
        by (rule inv_handles2[OF i _ False, of "Some q" "Some p"]) (auto simp add: f)
    qed
  qed (simp add: f)
qed

lemma dtor_Return:
  assumes "dtor T h s = Return r s'"
  shows "handles s' = (handles s)(h := None) \<and> next_addr s' = next_addr s \<and>
         ((handles s h = Some None \<and> cells s' = cells s \<and> deleted s' = deleted s) \<or>
          (\<exists>a m. handles s h = Some (Some a) \<and> cells s a = Some m \<and> 1 < count m \<and>
             cells s' = (cells s)(a \<mapsto> m\<lparr>count := count m - 1\<rparr>) \<and> deleted s' = deleted s) \<or>
          (\<exists>a m. handles s h = Some (Some a) \<and> cells s a = Some m \<and> count m = 1 \<and>
             deleted s' = a # deleted s \<and>
             (cells s' = (cells s)(a := None) \<or>
              (\<exists>d. cells s default_s = None \<and> elem_default T = Some (Inr d) \<and>
                 cells s' = (cells s)(default_s \<mapsto> \<lparr>count = 1, val = d\<rparr>, a := None)))))"
proof -
  from assms obtain p where hp: "handles s h = Some p"
    by (auto simp add: dtor_def run_defs split: option.splits)
  show ?thesis
  proof (cases p)
    case None
    then show ?thesis using assms hp by (auto simp add: dtor_def run_defs)
  next
    case (Some a)
    from assms hp Some obtain m where m: "cells s a = Some m" "0 < count m"
      by (auto simp add: dtor_def run_defs split: option.splits if_splits)
    show ?thesis
    proof (cases "count m = 1")
      case False
      then show ?thesis
        using assms hp Some m by (auto simp add: dtor_def run_defs split: if_splits)
    next
      case True
      show ?thesis
      proof (cases "elem_default T = None \<or> cells s default_s \<noteq> None")
        case True
        then show ?thesis
          using assms hp Some m \<open>count m = 1\<close>
          by (auto simp add: dtor_def run_defs split: if_splits option.splits)
      next
        case False
        then obtain c where c: "elem_default T = Some c" and n: "cells s default_s = None"
          by auto
        have ne: "a \<noteq> default_s" using n m by auto
        show ?thesis
        proof (cases c)
          case (Inl e)
          then show ?thesis
            using assms hp Some m \<open>count m = 1\<close> c n ne
            by (auto simp add: dtor_def run_defs split: if_splits option.splits)
        next
          case (Inr d)
          then show ?thesis
            using assms hp Some m \<open>count m = 1\<close> c n ne
            by (auto simp add: dtor_def run_defs fun_upd_twist split: if_splits option.splits)
        qed
      qed
    qed
  qed
qed

lemma inv_dtor: "hoare (inv_with b) (dtor T h) (inv_with b) E"
proof (rule hoareI_no_throw[OF no_throw_ops(3)])
  fix s :: "'a state" and r s'
  assume ib: "inv_with b s" and eq: "dtor T h s = Return r s'"
  note i = inv_withD[OF ib]
  note e = dtor_Return[OF eq]
  then have hs: "handles s' = (handles s)(h := None)" and ns: "next_addr s' = next_addr s"
    by simp_all
  from e consider
      (null) "handles s h = Some None" "cells s' = cells s" "deleted s' = deleted s"
    | (dec) a m where "handles s h = Some (Some a)" "cells s a = Some m" "1 < count m"
        "cells s' = (cells s)(a \<mapsto> m\<lparr>count := count m - 1\<rparr>)" "deleted s' = deleted s"
    | (del) a m where "handles s h = Some (Some a)" "cells s a = Some m" "count m = 1"
        "deleted s' = a # deleted s" "cells s' = (cells s)(a := None)"
    | (del_init) a m d where "handles s h = Some (Some a)" "cells s a = Some m" "count m = 1"
        "deleted s' = a # deleted s" "cells s default_s = None"
        "cells s' = (cells s)(default_s \<mapsto> \<lparr>count = 1, val = d\<rparr>, a := None)"
    by blast
  then show "inv_with b s'"
  proof cases
    case null
    show ?thesis
    proof (rule inv_withI[OF ib])
      show "state_inv s'"
        by (rule inv_handles1[OF i, of h None]) (simp_all add: null hs ns)
    qed (simp add: null)
  next
    case dec
    show ?thesis
    proof (rule inv_withI[OF ib])
      show "state_inv s'"
        by (rule inv_detach[OF i dec(1,2)]) (use dec in \<open>simp_all add: hs ns\<close>)
    qed (simp add: dec)
  next
    case del
    have ne: "a \<noteq> default_s" using i del(1,2,3) by (rule inv_last_not_static)
    show ?thesis
    proof (rule inv_withI[OF ib])
      show "state_inv s'"
        by (rule inv_release[OF i del(1,2,3)]) (simp_all add: del hs ns)
    qed (use ne in \<open>simp add: del\<close>)
  next
    case del_init
    let ?s1 = "s\<lparr>cells := (cells s)(default_s \<mapsto> \<lparr>count = 1, val = d\<rparr>)\<rparr>"
    have i1: "state_inv ?s1"
      by (rule inv_static[OF i del_init(5), of _ d]) simp_all
    have ne: "a \<noteq> default_s" using del_init(2,5) by auto
    show ?thesis
    proof (rule inv_withI[OF ib])
      show "state_inv s'"
        by (rule inv_release[OF i1, of h a m]) (use ne in \<open>simp_all add: del_init hs ns\<close>)
    qed (simp add: del_init)
  qed
qed

lemma inv_assign_move: "hoare (inv_with b) (assign_move T h x) (inv_with b) E"
  unfolding assign_move_def
  by (rule hoare_noexcept, rule hoare_and_then[OF inv_ctor_move],
      rule hoare_and_then[OF inv_swap], rule inv_dtor)

lemma inv_assign_copy: "hoare (inv_with b) (assign_copy T h x) (inv_with b) E"
  unfolding assign_copy_def
  by (rule hoare_noexcept, rule hoare_and_then[OF hoare_assert],
      rule hoare_and_then[OF inv_ctor_copy], rule hoare_and_then[OF inv_assign_move],
      rule inv_dtor)

lemma inv_replace:
  "hoare (inv_with b)
     (and_then (ctor_value (Temp 0) c) (\<lambda>_. and_then (assign_move T h (Temp 0)) (\<lambda>_. dtor T (Temp 0))))
     (inv_with b) (inv_with b)"
  by (rule hoare_and_then[OF inv_ctor_value], rule hoare_and_then[OF inv_assign_move],
      rule inv_dtor)

lemma hoare_finish:
  "hoare P (case e of None \<Rightarrow> ret () | Some x \<Rightarrow> throw x) P P"
  by (cases e) (simp_all add: hoare_ret hoare_throw)

lemma inv_assign_value: "hoare (inv_with b) (assign_value T h x) (inv_with b) (inv_with b)"
proof -
  have u: "hoare (inv_with b) (if p = None then ret False else unique h) (inv_with b) (inv_with b)" for p
    by (simp add: hoare_ret hoare_unique)
  have inplace: "hoare (inv_with b)
      (and_then (load_value a) (\<lambda>v.
       and_then (store_value a (fst (elem_assign T v x))) (\<lambda>_.
         case snd (elem_assign T v x) of None \<Rightarrow> ret () | Some e \<Rightarrow> throw e)))
      (inv_with b) (inv_with b)" for a
    by (rule hoare_and_then[OF hoare_load_value], rule hoare_and_then[OF inv_store_value],
        rule hoare_finish)
  show ?thesis
    unfolding assign_value_def
    apply (rule hoare_and_then[OF hoare_get_self])
    apply (rule hoare_and_then[OF u])
    apply (simp add: inplace inv_replace)
    done
qed

lemma inv_write_cow: "hoare (inv_with b) (write_cow T h) (inv_with b) (inv_with b)"
proof -
  have copy: "hoare (inv_with b)
      (and_then (read h) (\<lambda>v.
       and_then (ctor_value (Temp 0) (elem_copy T v)) (\<lambda>_.
       and_then (assign_move T h (Temp 0)) (\<lambda>_. dtor T (Temp 0)))))
      (inv_with b) (inv_with b)"
    by (rule hoare_and_then[OF hoare_read], rule inv_replace)
  show ?thesis
    unfolding write_cow_def
    apply (rule hoare_and_then[OF hoare_unique])
    apply (rule hoare_and_then[where R = "inv_with b"])
     apply (simp add: copy hoare_ret)
    apply (rule hoare_value_ref)
    done
qed

lemma inv_write_with: "hoare (inv_with b) (write_with T f g h) (inv_with b) (inv_with b)"
proof -
  have copy: "hoare (inv_with b)
      (and_then (read h) (\<lambda>v.
       and_then (lift (f v)) (\<lambda>w.
       and_then (ctor_value (Temp 0) (elem_move T w)) (\<lambda>_.
       and_then (assign_move T h (Temp 0)) (\<lambda>_. dtor T (Temp 0))))))
      (inv_with b) (inv_with b)"
    by (rule hoare_and_then[OF hoare_read], rule hoare_and_then[OF hoare_lift], rule inv_replace)
  have inplace: "hoare (inv_with b)
      (and_then (get_self h) (\<lambda>p.
       and_then (load_value (the p)) (\<lambda>v.
       and_then (store_value (the p) (fst (g v))) (\<lambda>_.
         case snd (g v) of None \<Rightarrow> ret () | Some e \<Rightarrow> throw e))))
      (inv_with b) (inv_with b)"
    by (rule hoare_and_then[OF hoare_get_self], rule hoare_and_then[OF hoare_load_value],
        rule hoare_and_then[OF inv_store_value], rule hoare_finish)
  show ?thesis
    unfolding write_with_def
    apply (rule hoare_and_then[OF hoare_unique])
    apply (rule hoare_and_then[where R = "inv_with b"])
     apply (simp add: copy inplace)
    apply (rule hoare_value_ref)
    done
qed

lemma inv_exec: "hoare (inv_with b) (exec T c) (inv_with b) (inv_with b)"
proof (cases c)
  case (Write n)
  then show ?thesis
    by (simp add: hoare_and_then[OF inv_write_cow hoare_ret])
next
  case (Write_with n f g)
  then show ?thesis
    by (simp add: hoare_and_then[OF inv_write_with hoare_ret])
qed (simp_all add: inv_ctor_default inv_ctor_value inv_ctor_copy inv_ctor_move inv_dtor
       inv_assign_copy inv_assign_move inv_assign_value inv_swap)

lemma inv_init: "state_inv init_state"
  by (auto simp add: state_inv_def init_state_def cell_ok_def addr_ok_def refs_def refs_of_def
        default_s_def)

subsection \<open>Temporaries do not outlive a call\<close>

lemma temps_upd:
  "temps_are A s \<Longrightarrow> handles s' = (handles s)(h \<mapsto> p) \<Longrightarrow> temps_are (A \<union> tid h) s'"
  by (cases h) (auto simp add: temps_are_def)

lemma temps_upd_live:
  "temps_are A s \<Longrightarrow> handles s h \<noteq> None \<Longrightarrow> handles s' = (handles s)(h \<mapsto> p) \<Longrightarrow>
   temps_are A s'"
  by (cases h) (auto simp add: temps_are_def)

lemma temps_end:
  "temps_are A s \<Longrightarrow> handles s' = (handles s)(h := None) \<Longrightarrow> temps_are (A - tid h) s'"
  by (cases h) (auto simp add: temps_are_def)

lemma temps_same: "temps_are A s \<Longrightarrow> handles s' = handles s \<Longrightarrow> temps_are A s'"
  by (simp add: temps_are_def)

lemma temps_store_value: "hoare (temps_are A) (store_value p v) (temps_are A) E"
  by (auto simp add: hoare_def store_value_def temps_are_def split: option.splits)

lemma temps_ctor_default:
  "hoare (temps_are A) (ctor_default T h) (temps_are (A \<union> tid h)) (temps_are A)"
proof (rule hoareI)
  fix s :: "'a state" and r s'
  assume t: "temps_are A s" and eq: "ctor_default T h s = Return r s'"
  from ctor_default_Return[OF eq] have "handles s' = (handles s)(h \<mapsto> Some default_s)"
    by auto
  with t show "temps_are (A \<union> tid h) s'" by (rule temps_upd)
next
  fix s :: "'a state" and e s'
  assume t: "temps_are A s" and "ctor_default T h s = Throw e s'"
  then have "s' = s"
    by (auto simp add: ctor_default_def run_defs split: option.splits sum.splits)
  then show "temps_are A s'" using t by simp
qed

lemma temps_ctor_value:
  "hoare (temps_are A) (ctor_value h c) (temps_are (A \<union> tid h)) (temps_are A)"
proof (rule hoareI)
  fix s :: "'a state" and r s'
  assume t: "temps_are A s" and eq: "ctor_value h c s = Return r s'"
  then have "handles s' = (handles s)(h \<mapsto> Some (next_addr s))"
    by (auto simp add: ctor_value_def run_defs split: option.splits sum.splits)
  with t show "temps_are (A \<union> tid h) s'" by (rule temps_upd)
next
  fix s :: "'a state" and e s'
  assume t: "temps_are A s" and "ctor_value h c s = Throw e s'"
  then have "s' = s"
    by (auto simp add: ctor_value_def run_defs split: option.splits sum.splits)
  then show "temps_are A s'" using t by simp
qed

lemma temps_ctor_copy: "hoare (temps_are A) (ctor_copy h x) (temps_are (A \<union> tid h)) E"
proof (rule hoareI_no_throw[OF no_throw_ops(1)])
  fix s :: "'a state" and r s'
  assume t: "temps_are A s" and eq: "ctor_copy h x s = Return r s'"
  then obtain p where "handles s' = (handles s)(h \<mapsto> p)"
    by (auto simp add: ctor_copy_def run_defs split: option.splits if_splits)
  with t show "temps_are (A \<union> tid h) s'" by (rule temps_upd)
qed

lemma temps_ctor_move: "hoare (temps_are A) (ctor_move h x) (temps_are (A \<union> tid h)) E"
proof (rule hoareI_no_throw[OF no_throw_ops(2)])
  fix s :: "'a state" and r s'
  assume t: "temps_are A s" and eq: "ctor_move h x s = Return r s'"
  then obtain p where x: "handles s x \<noteq> None"
    and s': "handles s' = (handles s)(x \<mapsto> None, h \<mapsto> p)"
    by (auto simp add: ctor_move_def run_defs split: option.splits if_splits)
  have "temps_are A (s\<lparr>handles := (handles s)(x \<mapsto> None)\<rparr>)"
    using t x by (rule temps_upd_live) simp
  then show "temps_are (A \<union> tid h) s'" by (rule temps_upd) (simp add: s')
qed

lemma temps_swap: "hoare (temps_are A) (swap x y) (temps_are A) E"
proof (rule hoareI_no_throw[OF no_throw_ops(4)])
  fix s :: "'a state" and r s'
  assume t: "temps_are A s" and eq: "swap x y s = Return r s'"
  then obtain p q where x: "handles s x \<noteq> None" and y: "handles s y \<noteq> None"
    and s': "handles s' = (handles s)(x \<mapsto> q, y \<mapsto> p)"
    by (auto simp add: swap_def run_defs split: option.splits if_splits)
  have "temps_are A (s\<lparr>handles := (handles s)(x \<mapsto> q)\<rparr>)"
    using t x by (rule temps_upd_live) simp
  then show "temps_are A s'" by (rule temps_upd_live) (use y in \<open>simp_all add: s'\<close>)
qed

lemma temps_dtor: "hoare (temps_are A) (dtor T h) (temps_are (A - tid h)) E"
proof (rule hoareI_no_throw[OF no_throw_ops(3)])
  fix s :: "'a state" and r s'
  assume t: "temps_are A s" and eq: "dtor T h s = Return r s'"
  from dtor_Return[OF eq] have "handles s' = (handles s)(h := None)" by simp
  with t show "temps_are (A - tid h) s'" by (rule temps_end)
qed

lemma temps_assign_move:
  assumes "1 \<notin> A"
  shows "hoare (temps_are A) (assign_move T h x) (temps_are A) E"
proof -
  have "hoare (temps_are (A \<union> tid (Temp 1))) (dtor T (Temp 1)) (temps_are A) (\<lambda>_. True)"
    using temps_dtor[of "A \<union> tid (Temp 1)" T "Temp 1"] assms by simp
  then show ?thesis
    unfolding assign_move_def
    by (intro hoare_noexcept hoare_and_then[OF temps_ctor_move] hoare_and_then[OF temps_swap])
qed

lemma temps_replace:
  "hoare (temps_are {})
     (and_then (ctor_value (Temp 0) c) (\<lambda>_. and_then (assign_move T h (Temp 0)) (\<lambda>_. dtor T (Temp 0))))
     (temps_are {}) (temps_are {})"
proof -
  have d: "hoare (temps_are {0}) (dtor T (Temp 0)) (temps_are {}) (temps_are {})"
    using temps_dtor[of "{0}" T "Temp 0"] by simp
  have m: "hoare (temps_are {0}) (assign_move T h (Temp 0)) (temps_are {0}) (temps_are {})"
    by (rule temps_assign_move) simp
  have c: "hoare (temps_are {}) (ctor_value (Temp 0) c) (temps_are {0}) (temps_are {})"
    using temps_ctor_value[of "{}" "Temp 0" c] by simp
  show ?thesis
    by (rule hoare_and_then[OF c], rule hoare_and_then[OF m], rule d)
qed

lemma temps_assign_copy: "hoare (temps_are {}) (assign_copy T h x) (temps_are {}) E"
proof -
  have d: "hoare (temps_are {0}) (dtor T (Temp 0)) (temps_are {}) (\<lambda>_. True)"
    using temps_dtor[of "{0}" T "Temp 0"] by simp
  have m: "hoare (temps_are {0}) (assign_move T h (Temp 0)) (temps_are {0}) (\<lambda>_. True)"
    by (rule temps_assign_move) simp
  have c: "hoare (temps_are {}) (ctor_copy (Temp 0) x) (temps_are {0}) (\<lambda>_. True)"
    using temps_ctor_copy[of "{}" "Temp 0" x] by simp
  show ?thesis
    unfolding assign_copy_def
    by (rule hoare_noexcept, rule hoare_and_then[OF hoare_assert], rule hoare_and_then[OF c],
        rule hoare_and_then[OF m], rule d)
qed

lemma temps_assign_value:
  "hoare (temps_are {}) (assign_value T h x) (temps_are {}) (temps_are {})"
proof -
  have u: "hoare (temps_are {}) (if p = None then ret False else unique h)
             (temps_are {}) (temps_are {})" for p
    by (simp add: hoare_ret hoare_unique)
  have inplace: "hoare (temps_are {})
      (and_then (load_value a) (\<lambda>v.
       and_then (store_value a (fst (elem_assign T v x))) (\<lambda>_.
         case snd (elem_assign T v x) of None \<Rightarrow> ret () | Some e \<Rightarrow> throw e)))
      (temps_are {}) (temps_are {})" for a
    by (rule hoare_and_then[OF hoare_load_value], rule hoare_and_then[OF temps_store_value],
        rule hoare_finish)
  show ?thesis
    unfolding assign_value_def
    apply (rule hoare_and_then[OF hoare_get_self])
    apply (rule hoare_and_then[OF u])
    apply (simp add: inplace temps_replace)
    done
qed

lemma temps_write_cow: "hoare (temps_are {}) (write_cow T h) (temps_are {}) (temps_are {})"
proof -
  have copy: "hoare (temps_are {})
      (and_then (read h) (\<lambda>v.
       and_then (ctor_value (Temp 0) (elem_copy T v)) (\<lambda>_.
       and_then (assign_move T h (Temp 0)) (\<lambda>_. dtor T (Temp 0)))))
      (temps_are {}) (temps_are {})"
    by (rule hoare_and_then[OF hoare_read], rule temps_replace)
  show ?thesis
    unfolding write_cow_def
    apply (rule hoare_and_then[OF hoare_unique])
    apply (rule hoare_and_then[where R = "temps_are {}"])
     apply (simp add: copy hoare_ret)
    apply (rule hoare_value_ref)
    done
qed

lemma temps_write_with:
  "hoare (temps_are {}) (write_with T f g h) (temps_are {}) (temps_are {})"
proof -
  have copy: "hoare (temps_are {})
      (and_then (read h) (\<lambda>v.
       and_then (lift (f v)) (\<lambda>w.
       and_then (ctor_value (Temp 0) (elem_move T w)) (\<lambda>_.
       and_then (assign_move T h (Temp 0)) (\<lambda>_. dtor T (Temp 0))))))
      (temps_are {}) (temps_are {})"
    by (rule hoare_and_then[OF hoare_read], rule hoare_and_then[OF hoare_lift],
        rule temps_replace)
  have inplace: "hoare (temps_are {})
      (and_then (get_self h) (\<lambda>p.
       and_then (load_value (the p)) (\<lambda>v.
       and_then (store_value (the p) (fst (g v))) (\<lambda>_.
         case snd (g v) of None \<Rightarrow> ret () | Some e \<Rightarrow> throw e))))
      (temps_are {}) (temps_are {})"
    by (rule hoare_and_then[OF hoare_get_self], rule hoare_and_then[OF hoare_load_value],
        rule hoare_and_then[OF temps_store_value], rule hoare_finish)
  show ?thesis
    unfolding write_with_def
    apply (rule hoare_and_then[OF hoare_unique])
    apply (rule hoare_and_then[where R = "temps_are {}"])
     apply (simp add: copy inplace)
    apply (rule hoare_value_ref)
    done
qed

lemma temps_exec: "hoare (temps_are {}) (exec T c) (temps_are {}) (temps_are {})"
proof (cases c)
  case (Default_ctor n)
  then show ?thesis using temps_ctor_default[of "{}" T "Named n"] by simp
next
  case (Value_ctor n v)
  then show ?thesis using temps_ctor_value[of "{}" "Named n" v] by simp
next
  case (Copy_ctor n x)
  then show ?thesis using temps_ctor_copy[of "{}" "Named n" "Named x"] by simp
next
  case (Move_ctor n x)
  then show ?thesis using temps_ctor_move[of "{}" "Named n" "Named x"] by simp
next
  case (Dtor n)
  then show ?thesis using temps_dtor[of "{}" T "Named n"] by simp
next
  case (Copy_assign n x)
  then show ?thesis by (simp add: temps_assign_copy)
next
  case (Move_assign n x)
  then show ?thesis by (simp add: temps_assign_move)
next
  case (Value_assign n v)
  then show ?thesis by (simp add: temps_assign_value)
next
  case (Write n)
  then show ?thesis by (simp add: hoare_and_then[OF temps_write_cow hoare_ret])
next
  case (Write_with n f g)
  then show ?thesis by (simp add: hoare_and_then[OF temps_write_with hoare_ret])
next
  case (Swap n x)
  then show ?thesis by (simp add: temps_swap)
qed

lemma valid_exec: "hoare valid (exec T c) valid valid"
  by (rule hoare_weaken[OF hoare_conj[OF inv_exec[where b = False] temps_exec]])
     (simp_all add: valid_def inv_with_def)

lemma valid_init: "valid init_state"
  using inv_init by (simp add: valid_def temps_are_def init_state_def)

lemma valid_after:
  assumes "valid s" and "after (exec T c s) = Some s'"
  shows "valid s'"
proof (cases "exec T c s")
  case (Return r t)
  from hoare_Return[OF valid_exec assms(1) Return] show ?thesis
    using assms(2) Return by simp
next
  case (Throw e t)
  from hoare_Throw[OF valid_exec assms(1) Throw] show ?thesis
    using assms(2) Throw by simp
next
  case (Fatal f)
  then show ?thesis using assms(2) by simp
qed

lemma reachable_valid: "reachable T s \<Longrightarrow> valid s"
proof (induction rule: reachable.induct)
  case start
  show ?case by (rule valid_init)
next
  case (step s c s')
  from step.IH step.hyps(2) show ?case by (rule valid_after)
qed

lemma static_stays:
  assumes "state_inv s" and "cells s default_s \<noteq> None" and "after (exec T c s) = Some s'"
  shows "cells s' default_s \<noteq> None"
proof -
  have ib: "inv_with True s" using assms(1,2) by (simp add: inv_with_def)
  have "inv_with True s'"
  proof (cases "exec T c s")
    case (Return r t)
    from hoare_Return[OF inv_exec ib Return] show ?thesis using assms(3) Return by simp
  next
    case (Throw e t)
    from hoare_Throw[OF inv_exec ib Throw] show ?thesis using assms(3) Throw by simp
  next
    case (Fatal f)
    then show ?thesis using assms(3) by simp
  qed
  then show ?thesis by (simp add: inv_with_def)
qed

subsection \<open>The example states are reachable\<close>

lemma reachable_one_owner: "reachable T one_owner"
  by (rule reachable.step[OF reachable.start, of _ "Value_ctor 0 (Inr 5)"])
     (simp add: one_owner_def init_state_def ctor_value_def run_defs)

lemma reachable_two_sharers: "reachable T two_sharers"
  by (rule reachable.step[OF reachable_one_owner, of _ "Copy_ctor 1 0"])
     (simp add: one_owner_def two_sharers_def ctor_copy_def run_defs numeral_2_eq_2)

lemma reachable_moved_from: "reachable T moved_from"
  by (rule reachable.step[OF reachable_one_owner, of _ "Move_ctor 1 0"])
     (simp add: one_owner_def moved_from_def ctor_move_def run_defs)


lemma reachable_default_one: "reachable nat_T default_one"
  by (rule reachable.step[OF reachable.start, of _ "Default_ctor 0"])
     (simp add: default_one_def init_state_def nat_T_def ctor_default_def run_defs default_s_def
        numeral_2_eq_2)

lemma valid_temps: "valid s \<Longrightarrow> handles s (Temp k) = None"
  by (simp add: valid_def temps_are_def)

lemma valid_fresh: "valid s \<Longrightarrow> cells s (next_addr s) = None"
  by (simp add: valid_def inv_fresh)

lemma valid_shared:
  assumes "valid s" "handles s a = Some (Some p)" "handles s b = Some (Some p)" "a \<noteq> b"
    "cells s p = Some m"
  shows "1 < count m"
proof -
  have i: "state_inv s" using assms(1) by (simp add: valid_def)
  have "2 \<le> refs s p"
    using refs_of_two[OF inv_fin[OF i] assms(2,3,4)] by (simp add: refs_def)
  then show ?thesis using inv_cell[OF i, of p] assms(5) by (simp add: cell_ok_def)
qed

lemma valid_live:
  assumes "valid s" "handles s h = Some (Some p)"
  shows "\<exists>m. cells s p = Some m \<and> 0 < count m"
proof -
  have i: "state_inv s" using assms(1) by (simp add: valid_def)
  have "0 < refs s p" using refs_of_pos[OF inv_fin[OF i] assms(2)] by (simp add: refs_def)
  then show ?thesis using inv_cell[OF i, of p] by (auto simp add: cell_ok_def split: option.splits)
qed

subsection \<open>Replacing the cell of an object\<close>

text \<open>
  \<^verbatim>\<open>*this = copy_on_write(v)\<close>, once the value \<open>v\<close> of the new cell is there: the
  construction of the temporary, the move assignment and the destruction of the temporary.
\<close>

lemma replace_null:
  assumes "handles s h = Some None" "handles s (Temp 0) = None" "handles s (Temp 1) = None"
  shows "and_then (ctor_value (Temp 0) (Inr v))
           (\<lambda>_. and_then (assign_move T h (Temp 0)) (\<lambda>_. dtor T (Temp 0))) s =
         Return ()
           (s\<lparr>cells := (cells s)(next_addr s \<mapsto> \<lparr>count = 1, val = v\<rparr>),
              next_addr := Suc (next_addr s),
              handles := (handles s)(h \<mapsto> Some (next_addr s))\<rparr>)"
proof -
  have ne: "h \<noteq> Temp 0" "h \<noteq> Temp 1" using assms by auto
  show ?thesis
    using assms ne
    by (auto simp add: ctor_value_def assign_move_def ctor_move_def swap_def dtor_def run_defs
          fun_eq_iff)
qed

lemma replace_shared:
  assumes "handles s h = Some (Some p)" "cells s p = Some m" "1 < count m"
    "handles s (Temp 0) = None" "handles s (Temp 1) = None" "cells s (next_addr s) = None"
  shows "and_then (ctor_value (Temp 0) (Inr v))
           (\<lambda>_. and_then (assign_move T h (Temp 0)) (\<lambda>_. dtor T (Temp 0))) s =
         Return ()
           (s\<lparr>cells := (cells s)(next_addr s \<mapsto> \<lparr>count = 1, val = v\<rparr>,
                                 p \<mapsto> m\<lparr>count := count m - 1\<rparr>),
              next_addr := Suc (next_addr s),
              handles := (handles s)(h \<mapsto> Some (next_addr s))\<rparr>)"
proof -
  have ne: "h \<noteq> Temp 0" "h \<noteq> Temp 1" "p \<noteq> next_addr s" using assms by auto
  show ?thesis
    using assms ne
    by (auto simp add: ctor_value_def assign_move_def ctor_move_def swap_def dtor_def run_defs
          fun_eq_iff)
qed

subsection \<open>Copy and move construction\<close>

text \<open>
  C3. For a non-null object \<open>a\<close> on a live cell \<open>p\<close>, copy-constructing \<open>b\<close> from \<open>a\<close>
  attaches \<open>b\<close> to \<open>p\<close> and adds exactly one to the count of \<open>p\<close> (nothing else changes);
  afterwards \<open>identity(a, b)\<close> is true and \<open>read(a)\<close> and \<open>read(b)\<close> give the same value.
\<close>

theorem copy_ctor_shares:
  assumes "handles s a = Some (Some p)" and "cells s p = Some m" and "handles s b = None"
  shows "let s' = s\<lparr>cells := (cells s)(p \<mapsto> m\<lparr>count := count m + 1\<rparr>),
                     handles := (handles s)(b \<mapsto> Some p)\<rparr>
         in ctor_copy b a s = Return () s' \<and> identity a b s' = Return True s' \<and>
            read a s' = Return (val m) s' \<and> read b s' = Return (val m) s'"
  using assms by (auto simp add: Let_def run_defs ctor_copy_def identity_def read_def)

theorem copy_ctor_shares_witness:
  "ctor_copy (Named 1) (Named 0) one_owner = Return () two_sharers \<and>
   identity (Named 0) (Named 1) two_sharers = Return True two_sharers \<and>
   read (Named 0) two_sharers = Return 5 two_sharers \<and>
   read (Named 1) two_sharers = Return 5 two_sharers"
  using copy_ctor_shares [where s = one_owner and a = "Named 0" and p = 1
      and m = "\<lparr>count = 1, val = 5\<rparr>" and b = "Named 1"]
  by (simp add: one_owner_def two_sharers_def Let_def numeral_2_eq_2)

text \<open>
  C8. For a non-null object \<open>a\<close>, move-constructing \<open>b\<close> from \<open>a\<close> gives \<open>b\<close> the cell
  of \<open>a\<close> and leaves \<open>a\<close> null; no cell changes, so no count changes. If \<open>a\<close> was the
  only reference to its cell (\<open>a.unique()\<close>, which the source documents as "this is the
  only reference to the underlying object"), then \<open>b.unique()\<close> holds afterwards. In a
  valid state that is the case when no other object is on the cell and the cell is not
  the default cell, whose static slot is a reference of its own.
\<close>

theorem move_ctor_transfers:
  assumes "handles s a = Some (Some p)" and "handles s b = None"
  shows "let s' = s\<lparr>handles := (handles s)(a \<mapsto> None, b \<mapsto> Some p)\<rparr>
         in ctor_move b a s = Return () s' \<and> cells s' = cells s \<and>
            (unique a s = Return True s \<longrightarrow> unique b s' = Return True s') \<and>
            (valid s \<and> p \<noteq> default_s \<and> (\<forall>h. handles s h = Some (Some p) \<longrightarrow> h = a) \<longrightarrow>
               unique a s = Return True s \<and> unique b s' = Return True s')"
proof -
  let ?s' = "s\<lparr>handles := (handles s)(a \<mapsto> None, b \<mapsto> Some p)\<rparr>"
  have m: "ctor_move b a s = Return () ?s'" "cells ?s' = cells s"
    using assms by (auto simp add: run_defs ctor_move_def)
  have u: "unique b ?s' = Return True ?s'" if "unique a s = Return True s"
    using that assms
    by (auto simp add: run_defs unique_def split: option.splits if_splits)
  have o: "unique a s = Return True s"
    if v: "valid s" and nd: "p \<noteq> default_s"
      and only: "\<forall>h. handles s h = Some (Some p) \<longrightarrow> h = a"
  proof -
    have i: "state_inv s" using v by (simp add: valid_def)
    have "h \<in> {h. handles s h = Some (Some p)} \<longleftrightarrow> h \<in> {a}" for h
      using only assms(1) by blast
    then have "{h. handles s h = Some (Some p)} = {a}" by (rule set_eqI)
    then have r: "refs s p = 1" by (simp add: refs_def refs_of_def)
    obtain c where c: "cells s p = Some c"
      using valid_live[OF v assms(1)] by blast
    have "count c = refs s p + extra p"
      using inv_cell[OF i, of p] c by (simp add: cell_ok_def)
    then have "count c = 1" using r nd by (simp add: extra_def)
    then show ?thesis using assms(1) c by (simp add: run_defs unique_def)
  qed
  show ?thesis
    unfolding Let_def
  proof (intro conjI impI)
    show "ctor_move b a s = Return () ?s'" by (rule m(1))
    show "cells ?s' = cells s" by (rule m(2))
    show "unique b ?s' = Return True ?s'" if "unique a s = Return True s"
      using that by (rule u)
    assume h: "valid s \<and> p \<noteq> default_s \<and> (\<forall>h. handles s h = Some (Some p) \<longrightarrow> h = a)"
    then show ua: "unique a s = Return True s" using o by blast
    then show "unique b ?s' = Return True ?s'" by (rule u)
  qed
qed

theorem move_ctor_transfers_witness:
  "unique (Named 0) one_owner = Return True one_owner \<and>
   ctor_move (Named 1) (Named 0) one_owner = Return () moved_from \<and>
   unique (Named 1) moved_from = Return True moved_from"
proof -
  have v: "valid one_owner" using reachable_one_owner by (rule reachable_valid)
  have h: "handles one_owner (Named 0) = Some (Some 1)" "handles one_owner (Named 1) = None"
    by (simp_all add: one_owner_def)
  have o: "\<forall>h. handles one_owner h = Some (Some 1) \<longrightarrow> h = Named 0"
    by (simp add: one_owner_def)
  have s': "one_owner\<lparr>handles := (handles one_owner)(Named 0 \<mapsto> None, Named 1 \<mapsto> Some 1)\<rparr> =
      moved_from"
    by (simp add: one_owner_def moved_from_def)
  note t = move_ctor_transfers[OF h, unfolded Let_def s']
  have "unique (Named 0) one_owner = Return True one_owner \<and>
      unique (Named 1) moved_from = Return True moved_from"
    using t[THEN conjunct2, THEN conjunct2, THEN conjunct2, rule_format, OF conjI[OF v conjI[OF _ o]]]
    by (simp add: default_s_def)
  then show ?thesis using t[THEN conjunct1] by simp
qed

subsection \<open>Writing\<close>

text \<open>
  C1. In a valid state (every state a program can reach is valid), let \<open>a\<close> and \<open>b\<close> be two objects on the same cell
  \<open>p\<close>, and let the copy constructor of \<^verbatim>\<open>T\<close> return an equal value. Then \<open>b\<close> is not
  unique, and \<open>b.write()\<close> allocates a cell that was not allocated before, holding a copy
  of the value with count 1, and returns a reference into that cell; afterwards
  \<open>identity(a, b)\<close> is false, \<open>read(a)\<close> is unchanged, \<open>b\<close> is unique and \<open>read(b)\<close> is
  the value from before the write. If \<open>b\<close> is unique already, \<open>write()\<close> returns a
  reference into the cell \<open>b\<close> has and changes nothing: no cell is allocated.
\<close>

theorem write_copies_when_shared:
  "(valid s \<and> handles s a = Some (Some p) \<and> handles s b = Some (Some p) \<and> a \<noteq> b \<and>
    cells s p = Some m \<and> elem_copy T (val m) = Inr (val m) \<longrightarrow>
      unique b s = Return False s \<and> cells s (next_addr s) = None \<and>
      (let s' = s\<lparr>cells := (cells s)(next_addr s \<mapsto> \<lparr>count = 1, val = val m\<rparr>,
                                      p \<mapsto> m\<lparr>count := count m - 1\<rparr>),
                   next_addr := Suc (next_addr s),
                   handles := (handles s)(b \<mapsto> Some (next_addr s))\<rparr>
       in write_cow T b s = Return (next_addr s) s' \<and>
          identity a b s' = Return False s' \<and> read a s' = Return (val m) s' \<and>
          unique b s' = Return True s' \<and> read b s' = Return (val m) s')) \<and>
   (handles s b = Some (Some p) \<and> cells s p = Some m \<and> count m = 1 \<longrightarrow>
      unique b s = Return True s \<and> write_cow T b s = Return p s)"
proof (intro conjI impI)
  assume h: "handles s b = Some (Some p) \<and> cells s p = Some m \<and> count m = 1"
  then show "unique b s = Return True s" by (simp add: unique_def run_defs)
  from h show "write_cow T b s = Return p s"
    by (simp add: write_cow_def unique_def value_ref_def run_defs)
next
  assume h: "valid s \<and> handles s a = Some (Some p) \<and> handles s b = Some (Some p) \<and> a \<noteq> b \<and>
    cells s p = Some m \<and> elem_copy T (val m) = Inr (val m)"
  then have c: "1 < count m" using valid_shared[of s a p b m] by simp
  have t: "handles s (Temp 0) = None" "handles s (Temp 1) = None"
    using h by (simp_all add: valid_temps)
  have f: "cells s (next_addr s) = None" using h by (simp add: valid_fresh)
  then have ne: "p \<noteq> next_addr s" using h by auto
  show "unique b s = Return False s" using h c by (simp add: unique_def run_defs)
  show "cells s (next_addr s) = None" by (rule f)
  let ?s' = "s\<lparr>cells := (cells s)(next_addr s \<mapsto> \<lparr>count = 1, val = val m\<rparr>,
                                      p \<mapsto> m\<lparr>count := count m - 1\<rparr>),
                   next_addr := Suc (next_addr s),
                   handles := (handles s)(b \<mapsto> Some (next_addr s))\<rparr>"
  have w: "write_cow T b s = Return (next_addr s) ?s'"
    using h c replace_shared[where s = s and h = b and p = p and m = m and T = T and v = "val m", OF _ _ c t f]
    by (simp add: write_cow_def unique_def read_def value_ref_def run_defs)
  have o: "identity a b ?s' = Return False ?s'" "read a ?s' = Return (val m) ?s'"
    "unique b ?s' = Return True ?s'" "read b ?s' = Return (val m) ?s'"
    using h ne by (auto simp add: identity_def read_def unique_def run_defs)
  show "let s' = ?s' in write_cow T b s = Return (next_addr s) s' \<and>
          identity a b s' = Return False s' \<and> read a s' = Return (val m) s' \<and>
          unique b s' = Return True s' \<and> read b s' = Return (val m) s'"
    using w o by (simp add: Let_def)
qed

theorem write_copies_when_shared_witness:
  "write_cow nat_T (Named 1) two_sharers =
     Return 2 (two_sharers\<lparr>cells := [1 \<mapsto> \<lparr>count = 1, val = 5\<rparr>, 2 \<mapsto> \<lparr>count = 1, val = 5\<rparr>],
                 next_addr := 3,
                 handles := [Named 0 \<mapsto> Some 1, Named 1 \<mapsto> Some 2]\<rparr>) \<and>
   write_cow nat_T (Named 0) one_owner = Return 1 one_owner"
proof -
  have v: "valid two_sharers" using reachable_two_sharers by (rule reachable_valid)
  have "write_cow nat_T (Named 1) two_sharers =
     Return 2 (two_sharers\<lparr>cells := [1 \<mapsto> \<lparr>count = 1, val = 5\<rparr>, 2 \<mapsto> \<lparr>count = 1, val = 5\<rparr>],
                 next_addr := 3,
                 handles := [Named 0 \<mapsto> Some 1, Named 1 \<mapsto> Some 2]\<rparr>)"
    using v write_copies_when_shared[where s = two_sharers and a = "Named 0" and p = 1 and b = "Named 1"
        and m = "\<lparr>count = 2, val = 5\<rparr>" and T = nat_T]
    by (simp add: two_sharers_def nat_T_def Let_def fun_upd_twist numeral_3_eq_3)
  moreover have "write_cow nat_T (Named 0) one_owner = Return 1 one_owner"
    using write_copies_when_shared[where s = one_owner and p = 1 and b = "Named 0"
        and m = "\<lparr>count = 1, val = 5\<rparr>" and T = nat_T]
    by (simp add: one_owner_def)
  ultimately show ?thesis by simp
qed

text \<open>
  C5. \<open>h.write(transform, inplace)\<close> on a non-null object \<open>h\<close> with cell \<open>p\<close>, in a valid
  state (every state a program can reach is valid). If \<open>h\<close> is not unique, \<open>transform\<close>
  is applied to the value; where it returns \<open>w\<close> and the element type builds the value
  of the new cell from that temporary without throwing and equal to it, \<open>h\<close> gets a new
  cell holding \<open>w\<close>; the old cell keeps its value (its count goes down by one) and no
  other object changes, so the others on the old cell read what they read before. If
  \<open>h\<close> is unique, \<open>inplace\<close> is applied to the value in the cell: nothing is allocated
  and \<open>h\<close> keeps its cell. Both return a reference into the cell \<open>h\<close> has afterwards.
  (What happens when \<open>transform\<close>, the construction or \<open>inplace\<close> throws is C9.)
\<close>

theorem write_with_transform_or_inplace:
  "(valid s \<and> handles s h = Some (Some p) \<and> cells s p = Some m \<and> count m \<noteq> 1 \<and>
    transform (val m) = Inr w \<and> elem_move T w = Inr w \<longrightarrow>
      unique h s = Return False s \<and>
      (let s' = s\<lparr>cells := (cells s)(next_addr s \<mapsto> \<lparr>count = 1, val = w\<rparr>,
                                      p \<mapsto> m\<lparr>count := count m - 1\<rparr>),
                   next_addr := Suc (next_addr s),
                   handles := (handles s)(h \<mapsto> Some (next_addr s))\<rparr>
       in write_with T transform inplace h s = Return (next_addr s) s' \<and>
          read h s' = Return w s' \<and>
          (\<forall>x. x \<noteq> h \<and> handles s x = Some (Some p) \<longrightarrow> read x s' = Return (val m) s'))) \<and>
   (handles s h = Some (Some p) \<and> cells s p = Some m \<and> count m = 1 \<and>
    inplace (val m) = (w, None) \<longrightarrow>
      unique h s = Return True s \<and>
      (let s' = s\<lparr>cells := (cells s)(p \<mapsto> m\<lparr>val := w\<rparr>)\<rparr>
       in write_with T transform inplace h s = Return p s' \<and> read h s' = Return w s'))"
proof (intro conjI impI)
  assume h: "handles s h = Some (Some p) \<and> cells s p = Some m \<and> count m = 1 \<and>
    inplace (val m) = (w, None)"
  then show "unique h s = Return True s" by (simp add: unique_def run_defs)
  from h show "let s' = s\<lparr>cells := (cells s)(p \<mapsto> m\<lparr>val := w\<rparr>)\<rparr>
       in write_with T transform inplace h s = Return p s' \<and> read h s' = Return w s'"
    by (simp add: Let_def write_with_def unique_def read_def value_ref_def run_defs)
next
  assume h: "valid s \<and> handles s h = Some (Some p) \<and> cells s p = Some m \<and> count m \<noteq> 1 \<and>
    transform (val m) = Inr w \<and> elem_move T w = Inr w"
  then have "0 < count m" using valid_live[of s h p] by auto
  then have c: "1 < count m" using h by simp
  have t: "handles s (Temp 0) = None" "handles s (Temp 1) = None"
    using h by (simp_all add: valid_temps)
  have f: "cells s (next_addr s) = None" using h by (simp add: valid_fresh)
  then have ne: "p \<noteq> next_addr s" using h by auto
  show "unique h s = Return False s" using h by (simp add: unique_def run_defs)
  let ?s' = "s\<lparr>cells := (cells s)(next_addr s \<mapsto> \<lparr>count = 1, val = w\<rparr>,
                                      p \<mapsto> m\<lparr>count := count m - 1\<rparr>),
                   next_addr := Suc (next_addr s),
                   handles := (handles s)(h \<mapsto> Some (next_addr s))\<rparr>"
  have w: "write_with T transform inplace h s = Return (next_addr s) ?s'"
    using h replace_shared[where s = s and h = h and p = p and m = m and T = T and v = w,
        OF _ _ c t f]
    by (simp add: write_with_def unique_def read_def value_ref_def run_defs)
  have o: "read h ?s' = Return w ?s'"
    "\<forall>x. x \<noteq> h \<and> handles s x = Some (Some p) \<longrightarrow> read x ?s' = Return (val m) ?s'"
    using h ne by (auto simp add: read_def run_defs)
  show "let s' = ?s' in write_with T transform inplace h s = Return (next_addr s) s' \<and>
          read h s' = Return w s' \<and>
          (\<forall>x. x \<noteq> h \<and> handles s x = Some (Some p) \<longrightarrow> read x s' = Return (val m) s')"
    using w o by (simp add: Let_def)
qed

theorem write_with_transform_or_inplace_witness:
  "write_with nat_T (\<lambda>v. Inr (v + 1)) (\<lambda>v. (v + 1, None)) (Named 1) two_sharers =
     Return 2 (two_sharers\<lparr>cells := [1 \<mapsto> \<lparr>count = 1, val = 5\<rparr>, 2 \<mapsto> \<lparr>count = 1, val = 6\<rparr>],
                 next_addr := 3,
                 handles := [Named 0 \<mapsto> Some 1, Named 1 \<mapsto> Some 2]\<rparr>) \<and>
   write_with nat_T (\<lambda>v. Inr (v + 1)) (\<lambda>v. (v + 1, None)) (Named 0) one_owner =
     Return 1 (one_owner\<lparr>cells := [1 \<mapsto> \<lparr>count = 1, val = 6\<rparr>]\<rparr>)"
proof -
  have v: "valid two_sharers" using reachable_two_sharers by (rule reachable_valid)
  have "write_with nat_T (\<lambda>v. Inr (v + 1)) (\<lambda>v. (v + 1, None)) (Named 1) two_sharers =
     Return 2 (two_sharers\<lparr>cells := [1 \<mapsto> \<lparr>count = 1, val = 5\<rparr>, 2 \<mapsto> \<lparr>count = 1, val = 6\<rparr>],
                 next_addr := 3,
                 handles := [Named 0 \<mapsto> Some 1, Named 1 \<mapsto> Some 2]\<rparr>)"
    using v write_with_transform_or_inplace[where s = two_sharers and h = "Named 1" and p = 1
        and m = "\<lparr>count = 2, val = 5\<rparr>" and T = nat_T and transform = "\<lambda>v. Inr (v + 1)"
        and inplace = "\<lambda>v. (v + 1, None)" and w = 6]
    by (simp add: two_sharers_def nat_T_def Let_def fun_upd_twist numeral_3_eq_3)
  moreover have "write_with nat_T (\<lambda>v. Inr (v + 1)) (\<lambda>v. (v + 1, None)) (Named 0) one_owner =
     Return 1 (one_owner\<lparr>cells := [1 \<mapsto> \<lparr>count = 1, val = 6\<rparr>]\<rparr>)"
    using write_with_transform_or_inplace[where s = one_owner and h = "Named 0" and p = 1
        and m = "\<lparr>count = 1, val = 5\<rparr>" and T = nat_T and transform = "\<lambda>v. Inr (v + 1)"
        and inplace = "\<lambda>v. (v + 1, None)" and w = 6]
    by (simp add: one_owner_def Let_def)
  ultimately show ?thesis by simp
qed

subsection \<open>Assigning a value\<close>

text \<open>
  C7. Assigning a raw value \<open>v\<close> to an object \<open>h\<close>, where the element type stores and
  copies \<open>v\<close> without throwing. If \<open>h\<close> is non-null and unique, the value in its cell
  becomes \<open>v\<close>: nothing is allocated and \<open>h\<close> keeps its cell. Otherwise (\<open>h\<close> is null, or
  shares its cell), in a valid state (every state a program can reach is valid), \<open>h\<close> gets a cell that was not
  allocated before, holding \<open>v\<close> with count 1; a cell \<open>h\<close> shared keeps its value, with its
  count one lower, and no other object changes.
\<close>

theorem assign_value_in_place_or_fresh:
  "(handles s h = Some (Some p) \<and> cells s p = Some m \<and> count m = 1 \<and>
    elem_assign T (val m) v = (v, None) \<longrightarrow>
      assign_value T h v s = Return () (s\<lparr>cells := (cells s)(p \<mapsto> m\<lparr>val := v\<rparr>)\<rparr>)) \<and>
   (valid s \<and> handles s h = Some (Some p) \<and> cells s p = Some m \<and> count m \<noteq> 1 \<and>
    elem_copy T v = Inr v \<longrightarrow>
      cells s (next_addr s) = None \<and>
      assign_value T h v s =
        Return () (s\<lparr>cells := (cells s)(next_addr s \<mapsto> \<lparr>count = 1, val = v\<rparr>,
                                       p \<mapsto> m\<lparr>count := count m - 1\<rparr>),
                     next_addr := Suc (next_addr s),
                     handles := (handles s)(h \<mapsto> Some (next_addr s))\<rparr>)) \<and>
   (valid s \<and> handles s h = Some None \<and> elem_copy T v = Inr v \<longrightarrow>
      cells s (next_addr s) = None \<and>
      assign_value T h v s =
        Return () (s\<lparr>cells := (cells s)(next_addr s \<mapsto> \<lparr>count = 1, val = v\<rparr>),
                     next_addr := Suc (next_addr s),
                     handles := (handles s)(h \<mapsto> Some (next_addr s))\<rparr>))"
proof (intro conjI impI)
  assume "handles s h = Some (Some p) \<and> cells s p = Some m \<and> count m = 1 \<and>
    elem_assign T (val m) v = (v, None)"
  then show "assign_value T h v s = Return () (s\<lparr>cells := (cells s)(p \<mapsto> m\<lparr>val := v\<rparr>)\<rparr>)"
    by (simp add: assign_value_def unique_def run_defs)
next
  assume h: "valid s \<and> handles s h = Some (Some p) \<and> cells s p = Some m \<and> count m \<noteq> 1 \<and>
    elem_copy T v = Inr v"
  then have "0 < count m" using valid_live[of s h p] by auto
  then have c: "1 < count m" using h by simp
  have t: "handles s (Temp 0) = None" "handles s (Temp 1) = None"
    using h by (simp_all add: valid_temps)
  show f: "cells s (next_addr s) = None" using h by (simp add: valid_fresh)
  show "assign_value T h v s =
        Return () (s\<lparr>cells := (cells s)(next_addr s \<mapsto> \<lparr>count = 1, val = v\<rparr>,
                                       p \<mapsto> m\<lparr>count := count m - 1\<rparr>),
                     next_addr := Suc (next_addr s),
                     handles := (handles s)(h \<mapsto> Some (next_addr s))\<rparr>)"
    using h replace_shared[where s = s and h = h and p = p and m = m and T = T and v = v,
        OF _ _ c t f]
    by (simp add: assign_value_def unique_def run_defs)
next
  assume h: "valid s \<and> handles s h = Some None \<and> elem_copy T v = Inr v"
  have t: "handles s (Temp 0) = None" "handles s (Temp 1) = None"
    using h by (simp_all add: valid_temps)
  show "cells s (next_addr s) = None" using h by (simp add: valid_fresh)
  show "assign_value T h v s =
        Return () (s\<lparr>cells := (cells s)(next_addr s \<mapsto> \<lparr>count = 1, val = v\<rparr>),
                     next_addr := Suc (next_addr s),
                     handles := (handles s)(h \<mapsto> Some (next_addr s))\<rparr>)"
    using h replace_null[where s = s and h = h and T = T and v = v, OF _ t]
    by (simp add: assign_value_def run_defs)
qed

theorem assign_value_in_place_or_fresh_witness:
  "assign_value nat_T (Named 0) 9 one_owner =
     Return () (one_owner\<lparr>cells := [1 \<mapsto> \<lparr>count = 1, val = 9\<rparr>]\<rparr>) \<and>
   assign_value nat_T (Named 1) 9 two_sharers =
     Return () (two_sharers\<lparr>cells := [1 \<mapsto> \<lparr>count = 1, val = 5\<rparr>, 2 \<mapsto> \<lparr>count = 1, val = 9\<rparr>],
                  next_addr := 3,
                  handles := [Named 0 \<mapsto> Some 1, Named 1 \<mapsto> Some 2]\<rparr>) \<and>
   assign_value nat_T (Named 0) 9 moved_from =
     Return () (moved_from\<lparr>cells := [1 \<mapsto> \<lparr>count = 1, val = 5\<rparr>, 2 \<mapsto> \<lparr>count = 1, val = 9\<rparr>],
                  next_addr := 3,
                  handles := [Named 0 \<mapsto> Some 2, Named 1 \<mapsto> Some 1]\<rparr>)"
proof -
  have v: "valid two_sharers" "valid moved_from"
    using reachable_two_sharers reachable_moved_from by (auto intro: reachable_valid)
  have "assign_value nat_T (Named 0) 9 one_owner =
     Return () (one_owner\<lparr>cells := [1 \<mapsto> \<lparr>count = 1, val = 9\<rparr>]\<rparr>)"
    using assign_value_in_place_or_fresh[where s = one_owner and h = "Named 0" and p = 1
        and m = "\<lparr>count = 1, val = 5\<rparr>" and T = nat_T and v = 9]
    by (simp add: one_owner_def nat_T_def)
  moreover have "assign_value nat_T (Named 1) 9 two_sharers =
     Return () (two_sharers\<lparr>cells := [1 \<mapsto> \<lparr>count = 1, val = 5\<rparr>, 2 \<mapsto> \<lparr>count = 1, val = 9\<rparr>],
                  next_addr := 3,
                  handles := [Named 0 \<mapsto> Some 1, Named 1 \<mapsto> Some 2]\<rparr>)"
    using v assign_value_in_place_or_fresh[where s = two_sharers and h = "Named 1" and p = 1
        and m = "\<lparr>count = 2, val = 5\<rparr>" and T = nat_T and v = 9]
    by (simp add: two_sharers_def nat_T_def fun_upd_twist numeral_3_eq_3)
  moreover have "assign_value nat_T (Named 0) 9 moved_from =
     Return () (moved_from\<lparr>cells := [1 \<mapsto> \<lparr>count = 1, val = 5\<rparr>, 2 \<mapsto> \<lparr>count = 1, val = 9\<rparr>],
                  next_addr := 3,
                  handles := [Named 0 \<mapsto> Some 2, Named 1 \<mapsto> Some 1]\<rparr>)"
    using v assign_value_in_place_or_fresh[where s = moved_from and h = "Named 0"
        and T = nat_T and v = 9]
    by (simp add: moved_from_def nat_T_def fun_upd_twist numeral_3_eq_3)
  ultimately show ?thesis by simp
qed

text \<open>
  C10. Assigning a raw value \<open>v\<close> to a moved-from (null) object \<open>h\<close>, in a valid
  state (every state a program can reach is valid) and with an element type that copies \<open>v\<close> without throwing, returns
  (no assertion fails: \<open>unique()\<close> is not called on the null object); afterwards \<open>h\<close> is
  non-null and unique, \<open>read(h)\<close> is \<open>v\<close>, and \<open>identity\<close> and \<open>write\<close> work on it again.
\<close>

theorem assign_value_revives_null:
  assumes "valid s" and "handles s h = Some None" and "elem_copy T v = Inr v"
  shows "case assign_value T h v s of
           Return _ s' \<Rightarrow>
             handles s' h = Some (Some (next_addr s)) \<and>
             unique h s' = Return True s' \<and> read h s' = Return v s' \<and>
             identity h h s' = Return True s' \<and> write_cow T h s' = Return (next_addr s) s'
         | Throw _ _ \<Rightarrow> False
         | Fatal _ \<Rightarrow> False"
proof -
  have t: "handles s (Temp 0) = None" "handles s (Temp 1) = None"
    using assms(1) by (simp_all add: valid_temps)
  have "assign_value T h v s =
        Return () (s\<lparr>cells := (cells s)(next_addr s \<mapsto> \<lparr>count = 1, val = v\<rparr>),
                     next_addr := Suc (next_addr s),
                     handles := (handles s)(h \<mapsto> Some (next_addr s))\<rparr>)"
    using assms replace_null[where s = s and h = h and T = T and v = v, OF _ t]
    by (simp add: assign_value_def run_defs)
  then show ?thesis
    by (simp add: unique_def read_def identity_def write_cow_def value_ref_def run_defs)
qed

theorem assign_value_revives_null_witness:
  "handles moved_from (Named 0) = Some None \<and>
   (case assign_value nat_T (Named 0) 9 moved_from of
      Return _ s' \<Rightarrow>
        handles s' (Named 0) = Some (Some 2) \<and>
        unique (Named 0) s' = Return True s' \<and> read (Named 0) s' = Return 9 s' \<and>
        identity (Named 0) (Named 0) s' = Return True s' \<and>
        write_cow nat_T (Named 0) s' = Return 2 s'
    | Throw _ _ \<Rightarrow> False
    | Fatal _ \<Rightarrow> False)"
proof -
  have v: "valid moved_from" using reachable_moved_from by (rule reachable_valid)
  have n: "handles moved_from (Named 0) = Some None" "elem_copy nat_T 9 = Inr 9"
    "next_addr moved_from = 2"
    by (simp_all add: moved_from_def nat_T_def)
  show ?thesis
    using assign_value_revives_null[OF v n(1,2)] n by (simp split: outcome.splits)
qed

subsection \<open>Comparisons\<close>

text \<open>
  C4. Let \<open>a\<close> and \<open>b\<close> be non-null objects on live cells \<open>p\<close> and \<open>q\<close>, with values
  \<open>val m\<close> and \<open>val n\<close>, and let \<^verbatim>\<open><\<close> and \<^verbatim>\<open>==\<close> of the element type be the relations \<open>lt\<close>
  and \<open>eq\<close>. Then \<open>a == b\<close> is "identity or equal values"; \<open>a < b\<close> is "not identity and
  the values are less-than", so \<open>a < a\<close> is false; \<open>a > b\<close> is \<open>b < a\<close>, \<open>a <= b\<close> is
  \<open>!(b < a)\<close>, \<open>a >= b\<close> is \<open>!(a < b)\<close>; and every comparison between an object and a raw
  value \<open>v\<close> is the same comparison of the element type (\<^verbatim>\<open>></\<close>, \<^verbatim>\<open><=\<close>, \<^verbatim>\<open>>=\<close> and \<^verbatim>\<open>!=\<close> written
  with \<^verbatim>\<open><\<close> and \<^verbatim>\<open>==\<close>, as the source does) with \<open>read()\<close> in place of the object.
\<close>

theorem comparison_operators:
  assumes "handles s a = Some (Some p)" and "cells s p = Some m"
    and "handles s b = Some (Some q)" and "cells s q = Some n"
    and "elem_lt T = (\<lambda>u v. Inr (lt u v))" and "elem_eq T = (\<lambda>u v. Inr (eq u v))"
  shows "identity a b s = Return (p = q) s \<and>
         read a s = Return (val m) s \<and> read b s = Return (val n) s \<and>
         op_eq T a b s = Return (p = q \<or> eq (val m) (val n)) s \<and>
         op_ne T a b s = Return (\<not> (p = q \<or> eq (val m) (val n))) s \<and>
         op_lt T a b s = Return (p \<noteq> q \<and> lt (val m) (val n)) s \<and>
         op_lt T b a s = Return (q \<noteq> p \<and> lt (val n) (val m)) s \<and>
         op_lt T a a s = Return False s \<and>
         op_gt T a b s = op_lt T b a s \<and>
         op_le T a b s = Return (\<not> (q \<noteq> p \<and> lt (val n) (val m))) s \<and>
         op_ge T a b s = Return (\<not> (p \<noteq> q \<and> lt (val m) (val n))) s \<and>
         op_lt_hv T a v s = Return (lt (val m) v) s \<and>
         op_lt_vh T v a s = Return (lt v (val m)) s \<and>
         op_gt_hv T a v s = Return (lt v (val m)) s \<and>
         op_gt_vh T v a s = Return (lt (val m) v) s \<and>
         op_le_hv T a v s = Return (\<not> lt v (val m)) s \<and>
         op_le_vh T v a s = Return (\<not> lt (val m) v) s \<and>
         op_ge_hv T a v s = Return (\<not> lt (val m) v) s \<and>
         op_ge_vh T v a s = Return (\<not> lt v (val m)) s \<and>
         op_eq_hv T a v s = Return (eq (val m) v) s \<and>
         op_eq_vh T v a s = Return (eq v (val m)) s \<and>
         op_ne_hv T a v s = Return (\<not> eq (val m) v) s \<and>
         op_ne_vh T v a s = Return (\<not> eq v (val m)) s"
proof -
  have i: "identity a b s = Return (p = q) s" "identity b a s = Return (q = p) s"
    "identity a a s = Return True s"
    using assms(1,3) by (simp_all add: identity_def run_defs)
  have r: "read a s = Return (val m) s" "read b s = Return (val n) s"
    using assms(1-4) by (simp_all add: read_def run_defs)
  have lt: "op_lt T a b s = Return (p \<noteq> q \<and> lt (val m) (val n)) s"
    "op_lt T b a s = Return (q \<noteq> p \<and> lt (val n) (val m)) s"
    "op_lt T a a s = Return False s"
    using i r assms(5) by (auto simp add: op_lt_def and_then_def noexcept_def lift_def ret_def)
  have eq: "op_eq T a b s = Return (p = q \<or> eq (val m) (val n)) s"
    using i r assms(6) by (auto simp add: op_eq_def and_then_def noexcept_def lift_def ret_def)
  have hv: "op_lt_hv T a v s = Return (lt (val m) v) s" "op_lt_vh T v a s = Return (lt v (val m)) s"
    "op_eq_hv T a v s = Return (eq (val m) v) s" "op_eq_vh T v a s = Return (eq v (val m)) s"
    using r assms(5,6)
    by (simp_all add: op_lt_hv_def op_lt_vh_def op_eq_hv_def op_eq_vh_def and_then_def
          noexcept_def lift_def ret_def)
  have gt: "op_gt T a b s = op_lt T b a s"
    using lt by (simp add: op_gt_def noexcept_def)
  show ?thesis
    using i r lt eq hv gt
    by (simp add: op_ne_def op_le_def op_ge_def op_gt_hv_def op_gt_vh_def op_le_hv_def
          op_le_vh_def op_ge_hv_def op_ge_vh_def op_ne_hv_def op_ne_vh_def and_then_def
          noexcept_def ret_def)
qed

theorem comparison_operators_witness:
  "op_eq nat_T (Named 0) (Named 1) two_cells = Return False two_cells \<and>
   op_eq nat_T (Named 0) (Named 1) two_sharers = Return True two_sharers \<and>
   op_lt nat_T (Named 0) (Named 1) two_cells = Return True two_cells \<and>
   op_lt nat_T (Named 0) (Named 0) two_cells = Return False two_cells \<and>
   op_le nat_T (Named 0) (Named 1) two_cells = Return True two_cells \<and>
   op_ge nat_T (Named 0) (Named 1) two_cells = Return False two_cells \<and>
   op_gt_hv nat_T (Named 0) 3 two_cells = Return True two_cells \<and>
   op_le_vh nat_T 3 (Named 0) two_cells = Return True two_cells"
proof -
  have T: "elem_lt nat_T = (\<lambda>u v. Inr (u < v))" "elem_eq nat_T = (\<lambda>u v. Inr (u = v))"
    by (simp_all add: nat_T_def)
  have c: "handles two_cells (Named 0) = Some (Some 1)"
    "cells two_cells 1 = Some \<lparr>count = 1, val = 5\<rparr>"
    "handles two_cells (Named 1) = Some (Some 2)"
    "cells two_cells 2 = Some \<lparr>count = 1, val = 7\<rparr>"
    by (simp_all add: two_cells_def)
  have d: "handles two_sharers (Named 0) = Some (Some 1)"
    "cells two_sharers 1 = Some \<lparr>count = 2, val = 5\<rparr>"
    "handles two_sharers (Named 1) = Some (Some 1)"
    by (simp_all add: two_sharers_def)
  show ?thesis
    using comparison_operators[OF c T, of 3] comparison_operators[OF d(1,2,3,2) T, of 3]
    by simp
qed

subsection \<open>Failures of the element type\<close>












subsection \<open>Reference counts\<close>

lemma dtor_shared:
  assumes "handles s h = Some (Some p)" "cells s p = Some m" "1 < count m"
  shows "dtor T h s =
     Return () (s\<lparr>cells := (cells s)(p \<mapsto> m\<lparr>count := count m - 1\<rparr>),
                  handles := (handles s)(h := None)\<rparr>)"
  using assms by (simp add: dtor_def run_defs)

lemma dtor_last:
  assumes "handles s h = Some (Some p)" "cells s p = Some m" "count m = 1" "p \<noteq> default_s"
    "elem_default T = None \<or> cells s default_s \<noteq> None"
  shows "dtor T h s =
     Return () (s\<lparr>cells := (cells s)(p := None), deleted := p # deleted s,
                  handles := (handles s)(h := None)\<rparr>)"
  using assms by (auto simp add: dtor_def run_defs)

text \<open>
  C2. In every state a program can reach:
  \<^item> the count of each cell is the number of objects that reference it, plus one for
    the static default cell, and is not 0; every non-null object references a live cell;
  \<^item> \<^verbatim>\<open>delete\<close> has been called exactly once on every address that \<^verbatim>\<open>new\<close> handed out and
    that holds no cell any more, and never on another address: not on a live cell, and
    not on the default cell;
  \<^item> copy construction adds exactly one to the count of the cell and changes nothing
    else;
  \<^item> the destruction of an object on a cell of count other than 1 takes exactly one
    from the count and deletes nothing;
  \<^item> the destruction of an object on a cell of count 1, when it returns, has deleted
    that cell, which is not the default cell; and it does return when the static is
    initialised or the element type has no default constructor (otherwise the
    destructor's assertion first runs that constructor).
\<close>

theorem counts_are_reference_counts:
  assumes "reachable T s"
  shows "(\<forall>p m. cells s p = Some m \<longrightarrow>
            count m = card {h. handles s h = Some (Some p)} + (if p = default_s then 1 else 0) \<and>
            0 < count m) \<and>
         (\<forall>h p. handles s h = Some (Some p) \<longrightarrow> cells s p \<noteq> None) \<and>
         (\<forall>p. count_list (deleted s) p =
            (if p \<noteq> default_s \<and> p < next_addr s \<and> cells s p = None then 1 else 0)) \<and>
         (\<forall>a b p m. handles s a = Some (Some p) \<and> cells s p = Some m \<and> handles s b = None \<longrightarrow>
            ctor_copy b a s =
              Return () (s\<lparr>cells := (cells s)(p \<mapsto> m\<lparr>count := count m + 1\<rparr>),
                           handles := (handles s)(b \<mapsto> Some p)\<rparr>)) \<and>
         (\<forall>h p m. handles s h = Some (Some p) \<and> cells s p = Some m \<and> count m \<noteq> 1 \<longrightarrow>
            dtor T h s =
              Return () (s\<lparr>cells := (cells s)(p \<mapsto> m\<lparr>count := count m - 1\<rparr>),
                           handles := (handles s)(h := None)\<rparr>)) \<and>
         (\<forall>h p m r s'. handles s h = Some (Some p) \<and> cells s p = Some m \<and> count m = 1 \<and>
            dtor T h s = Return r s' \<longrightarrow>
              p \<noteq> default_s \<and> cells s' p = None \<and> deleted s' = p # deleted s \<and>
              handles s' = (handles s)(h := None)) \<and>
         (\<forall>h p m. handles s h = Some (Some p) \<and> cells s p = Some m \<and> count m = 1 \<and>
            (elem_default T = None \<or> cells s default_s \<noteq> None) \<longrightarrow>
            dtor T h s =
              Return () (s\<lparr>cells := (cells s)(p := None), deleted := p # deleted s,
                           handles := (handles s)(h := None)\<rparr>))"
proof -
  have v: "valid s" using assms by (rule reachable_valid)
  then have i: "state_inv s" by (simp add: valid_def)
  have c1: "count m = card {h. handles s h = Some (Some p)} + (if p = default_s then 1 else 0) \<and>
      0 < count m"
    if "cells s p = Some m" for p m
  proof -
    have "count m = refs s p + extra p \<and> 0 < count m"
      using inv_cell[OF i, of p] that by (auto simp add: cell_ok_def)
    then show ?thesis unfolding refs_def refs_of_def extra_def .
  qed
  have c2: "cells s p \<noteq> None" if "handles s h = Some (Some p)" for h p
    using valid_live[OF v that] by auto
  have c3: "count_list (deleted s) p =
      (if p \<noteq> default_s \<and> p < next_addr s \<and> cells s p = None then 1 else 0)" for p
    using inv_addr[OF i, of p] by (auto simp add: addr_ok_def split: if_splits)
  have c4: "ctor_copy b a s =
      Return () (s\<lparr>cells := (cells s)(p \<mapsto> m\<lparr>count := count m + 1\<rparr>),
                   handles := (handles s)(b \<mapsto> Some p)\<rparr>)"
    if "handles s a = Some (Some p) \<and> cells s p = Some m \<and> handles s b = None" for a b p m
    using that by (auto simp add: ctor_copy_def run_defs)
  have c5: "dtor T h s =
      Return () (s\<lparr>cells := (cells s)(p \<mapsto> m\<lparr>count := count m - 1\<rparr>),
                   handles := (handles s)(h := None)\<rparr>)"
    if "handles s h = Some (Some p) \<and> cells s p = Some m \<and> count m \<noteq> 1" for h p m
  proof -
    have "0 < count m" using valid_live[OF v, of h p] that by auto
    then have "1 < count m" using that by simp
    then show ?thesis using that by (simp add: dtor_shared)
  qed
  have c6: "p \<noteq> default_s \<and> cells s' p = None \<and> deleted s' = p # deleted s \<and>
      handles s' = (handles s)(h := None)"
    if t: "handles s h = Some (Some p) \<and> cells s p = Some m \<and> count m = 1 \<and>
      dtor T h s = Return r s'" for h p m r s'
  proof -
    have nd: "p \<noteq> default_s" using inv_last_not_static[OF i, of h p m] t by simp
    from t have "dtor T h s = Return r s'" by simp
    from dtor_Return[OF this] show ?thesis using t nd by auto
  qed
  have c7: "dtor T h s =
      Return () (s\<lparr>cells := (cells s)(p := None), deleted := p # deleted s,
                   handles := (handles s)(h := None)\<rparr>)"
    if t: "handles s h = Some (Some p) \<and> cells s p = Some m \<and> count m = 1 \<and>
      (elem_default T = None \<or> cells s default_s \<noteq> None)" for h p m
  proof -
    have nd: "p \<noteq> default_s" using inv_last_not_static[OF i, of h p m] t by simp
    show ?thesis using t nd by (simp add: dtor_last)
  qed
  show ?thesis
    using c1 c2 c3 c4 c5 c6 c7 by blast
qed

theorem counts_are_reference_counts_witness:
  "card {h. handles two_sharers h = Some (Some 1)} = 2 \<and>
   count_list (deleted two_sharers) 1 = 0 \<and>
   ctor_copy (Named 2) (Named 0) two_sharers =
     Return () (two_sharers\<lparr>cells := [1 \<mapsto> \<lparr>count = 3, val = 5\<rparr>],
        handles := [Named 0 \<mapsto> Some 1, Named 1 \<mapsto> Some 1, Named 2 \<mapsto> Some 1]\<rparr>) \<and>
   dtor nat_T (Named 1) two_sharers =
     Return () (two_sharers\<lparr>cells := [1 \<mapsto> \<lparr>count = 1, val = 5\<rparr>],
        handles := [Named 0 \<mapsto> Some 1]\<rparr>) \<and>
   dtor (nat_T\<lparr>elem_default := None\<rparr>) (Named 0) one_owner =
     Return () (one_owner\<lparr>cells := Map.empty, deleted := [1], handles := Map.empty\<rparr>)"
proof -
  note two = counts_are_reference_counts[OF reachable_two_sharers, where T = nat_T]
  note one = counts_are_reference_counts[OF reachable_one_owner,
      where T = "nat_T\<lparr>elem_default := None\<rparr>"]
  note two1 = two[THEN conjunct1, rule_format]
  note two3 = two[THEN conjunct2, THEN conjunct2, THEN conjunct1, rule_format]
  note two4 = two[THEN conjunct2, THEN conjunct2, THEN conjunct2, THEN conjunct1, rule_format]
  note two5 = two[THEN conjunct2, THEN conjunct2, THEN conjunct2, THEN conjunct2,
      THEN conjunct1, rule_format]
  note one7 = one[THEN conjunct2, THEN conjunct2, THEN conjunct2, THEN conjunct2,
      THEN conjunct2, THEN conjunct2, rule_format]
  have "card {h. handles two_sharers h = Some (Some 1)} = 2"
    using two1[of 1 "\<lparr>count = 2, val = 5\<rparr>"] by (simp add: two_sharers_def default_s_def)
  moreover have "count_list (deleted two_sharers) 1 = 0"
    using two3[of 1] by (simp add: two_sharers_def)
  moreover have "ctor_copy (Named 2) (Named 0) two_sharers =
     Return () (two_sharers\<lparr>cells := [1 \<mapsto> \<lparr>count = 3, val = 5\<rparr>],
        handles := [Named 0 \<mapsto> Some 1, Named 1 \<mapsto> Some 1, Named 2 \<mapsto> Some 1]\<rparr>)"
    using two4[of "Named 0" 1 "\<lparr>count = 2, val = 5\<rparr>" "Named 2"]
    by (simp add: two_sharers_def numeral_3_eq_3)
  moreover have "dtor nat_T (Named 1) two_sharers =
     Return () (two_sharers\<lparr>cells := [1 \<mapsto> \<lparr>count = 1, val = 5\<rparr>],
        handles := [Named 0 \<mapsto> Some 1]\<rparr>)"
    using two5[of "Named 1" 1 "\<lparr>count = 2, val = 5\<rparr>"]
    by (simp add: two_sharers_def fun_eq_iff)
  moreover have "dtor (nat_T\<lparr>elem_default := None\<rparr>) (Named 0) one_owner =
     Return () (one_owner\<lparr>cells := Map.empty, deleted := [1], handles := Map.empty\<rparr>)"
    using one7[of "Named 0" 1 "\<lparr>count = 1, val = 5\<rparr>"]
    by (simp add: one_owner_def)
  ultimately show ?thesis by simp
qed

subsection \<open>The default cell\<close>

text \<open>
  C6, as stated, fails: destroying the only object on the default cell takes its count
  from 2 back to 1, the baseline. Here \<^verbatim>\<open>{ copy_on_write<T> h0; }\<close> runs from the start of
  the process.
\<close>

theorem default_count_returns_to_baseline:
  "ctor_default nat_T (Named 0) init_state = Return () default_one \<and>
   cells default_one default_s = Some \<lparr>count = 2, val = 0\<rparr> \<and>
   dtor nat_T (Named 0) default_one =
     Return () (default_one\<lparr>cells := [default_s \<mapsto> \<lparr>count = 1, val = 0\<rparr>],
                  handles := Map.empty\<rparr>)"
  by (simp add: ctor_default_def dtor_def run_defs default_one_def init_state_def nat_T_def
        default_s_def numeral_2_eq_2)

text \<open>
  C6, amended. The static default cell starts with count 1; the default construction
  that initialises it leaves it at 2, and every later default construction adds one. In
  every state a program can reach the default cell has never been deleted, its count is
  one more than the number of objects on it (so it is never below 1, and it is exactly 1
  when every object on it has been destroyed), and once it is initialised it is there
  after every call.
\<close>

theorem default_cell_immortal:
  "(cells s default_s = None \<and> elem_default T = Some (Inr d) \<longrightarrow>
      default_model T s =
        Return default_s (s\<lparr>cells := (cells s)(default_s \<mapsto> \<lparr>count = 1, val = d\<rparr>)\<rparr>)) \<and>
   (cells s default_s = None \<and> elem_default T = Some (Inr d) \<and> handles s h = None \<longrightarrow>
      ctor_default T h s =
        Return () (s\<lparr>cells := (cells s)(default_s \<mapsto> \<lparr>count = 2, val = d\<rparr>),
                     handles := (handles s)(h \<mapsto> Some default_s)\<rparr>)) \<and>
   (cells s default_s = Some m \<and> handles s h = None \<longrightarrow>
      ctor_default T h s =
        Return () (s\<lparr>cells := (cells s)(default_s \<mapsto> m\<lparr>count := count m + 1\<rparr>),
                     handles := (handles s)(h \<mapsto> Some default_s)\<rparr>)) \<and>
   (reachable T s \<longrightarrow>
      default_s \<notin> set (deleted s) \<and>
      (\<forall>m. cells s default_s = Some m \<longrightarrow>
         count m = card {h. handles s h = Some (Some default_s)} + 1) \<and>
      (\<forall>c s'. cells s default_s \<noteq> None \<and> after (exec T c s) = Some s' \<longrightarrow>
         cells s' default_s \<noteq> None))"
proof (intro conjI impI allI)
  assume "cells s default_s = None \<and> elem_default T = Some (Inr d)"
  then show "default_model T s =
        Return default_s (s\<lparr>cells := (cells s)(default_s \<mapsto> \<lparr>count = 1, val = d\<rparr>)\<rparr>)"
    by (simp add: default_model_def)
next
  assume "cells s default_s = None \<and> elem_default T = Some (Inr d) \<and> handles s h = None"
  then show "ctor_default T h s =
        Return () (s\<lparr>cells := (cells s)(default_s \<mapsto> \<lparr>count = 2, val = d\<rparr>),
                     handles := (handles s)(h \<mapsto> Some default_s)\<rparr>)"
    by (simp add: ctor_default_def run_defs numeral_2_eq_2)
next
  assume "cells s default_s = Some m \<and> handles s h = None"
  then show "ctor_default T h s =
        Return () (s\<lparr>cells := (cells s)(default_s \<mapsto> m\<lparr>count := count m + 1\<rparr>),
                     handles := (handles s)(h \<mapsto> Some default_s)\<rparr>)"
    by (simp add: ctor_default_def run_defs)
next
  assume r: "reachable T s"
  then have i: "state_inv s" using reachable_valid[of T s] by (simp add: valid_def)
  have "count_list (deleted s) default_s = 0"
    using inv_addr[OF i, of default_s] by (auto simp add: addr_ok_def split: if_splits)
  then show "default_s \<notin> set (deleted s)" by (simp add: count_list_0_iff)
  {
    fix m assume "cells s default_s = Some m"
    then show "count m = card {h. handles s h = Some (Some default_s)} + 1"
      using inv_cell[OF i, of default_s]
      by (simp add: cell_ok_def refs_def refs_of_def extra_def)
  }
  {
    fix c s' assume "cells s default_s \<noteq> None \<and> after (exec T c s) = Some s'"
    then show "cells s' default_s \<noteq> None"
      using static_stays[OF i, of T c s'] by simp
  }
qed

theorem default_cell_immortal_witness:
  "default_model nat_T init_state =
     Return default_s (init_state\<lparr>cells := [default_s \<mapsto> \<lparr>count = 1, val = 0\<rparr>]\<rparr>) \<and>
   ctor_default nat_T (Named 0) init_state = Return () default_one \<and>
   ctor_default nat_T (Named 1) default_one =
     Return () (default_one\<lparr>cells := [default_s \<mapsto> \<lparr>count = 3, val = 0\<rparr>],
                  handles := [Named 0 \<mapsto> Some default_s, Named 1 \<mapsto> Some default_s]\<rparr>) \<and>
   default_s \<notin> set (deleted default_one) \<and>
   card {h. handles default_one h = Some (Some default_s)} = 1 \<and>
   cells (default_one\<lparr>cells := [default_s \<mapsto> \<lparr>count = 1, val = 0\<rparr>], handles := Map.empty\<rparr>)
     default_s \<noteq> None"
proof -
  note a = default_cell_immortal[where s = "init_state :: nat state" and T = nat_T and d = 0
      and h = "Named 0"]
  note b = default_cell_immortal[where s = default_one and T = nat_T
      and m = "\<lparr>count = 2, val = 0\<rparr>" and h = "Named 1"]
  note a1 = a[THEN conjunct1, rule_format]
  note a2 = a[THEN conjunct2, THEN conjunct1, rule_format]
  note b3 = b[THEN conjunct2, THEN conjunct2, THEN conjunct1, rule_format]
  note b4 = b[THEN conjunct2, THEN conjunct2, THEN conjunct2, rule_format,
      OF reachable_default_one]
  have e: "cells (init_state :: nat state) default_s = None"
    "elem_default nat_T = Some (Inr 0)" "handles (init_state :: nat state) (Named 0) = None"
    "cells default_one default_s = Some \<lparr>count = 2, val = 0\<rparr>"
    "handles default_one (Named 1) = None"
    by (simp_all add: init_state_def nat_T_def default_one_def default_s_def)
  have d: "after (exec nat_T (Dtor 0) default_one) =
      Some (default_one\<lparr>cells := [default_s \<mapsto> \<lparr>count = 1, val = 0\<rparr>], handles := Map.empty\<rparr>)"
    by (simp add: dtor_def run_defs default_one_def nat_T_def default_s_def)
  have "default_model nat_T init_state =
     Return default_s (init_state\<lparr>cells := [default_s \<mapsto> \<lparr>count = 1, val = 0\<rparr>]\<rparr>)"
    using a1 e(1,2) by (simp add: init_state_def)
  moreover have "ctor_default nat_T (Named 0) init_state = Return () default_one"
    using a2 e(1,2,3) by (simp add: init_state_def default_one_def default_s_def)
  moreover have "ctor_default nat_T (Named 1) default_one =
     Return () (default_one\<lparr>cells := [default_s \<mapsto> \<lparr>count = 3, val = 0\<rparr>],
                  handles := [Named 0 \<mapsto> Some default_s, Named 1 \<mapsto> Some default_s]\<rparr>)"
    using b3 e(4,5) by (simp add: default_one_def default_s_def numeral_3_eq_3)
  moreover have "default_s \<notin> set (deleted default_one)"
    using b4 by simp
  moreover have "card {h. handles default_one h = Some (Some default_s)} = 1"
    using b4[THEN conjunct2, THEN conjunct1, rule_format, OF e(4)] by simp
  moreover have "cells (default_one\<lparr>cells := [default_s \<mapsto> \<lparr>count = 1, val = 0\<rparr>],
      handles := Map.empty\<rparr>) default_s \<noteq> None"
    using b4[THEN conjunct2, THEN conjunct2, rule_format, OF conjI[OF _ d]] e(4) by simp
  ultimately show ?thesis by simp
qed

end
